theory Spec2Isabelle
  imports Main "HOL-Library.Sublist"
begin

section \<open>Data model\<close>

text \<open>
  The server keeps its state in two PostgreSQL tables that matter here, \<open>devices\<close> and
  \<open>device_commands\<close> (created by \<open>ensureMigrations\<close>). A table is a list of rows in
  insertion order; an \<open>UPDATE\<close> rewrites rows in place, an \<open>INSERT\<close> appends one.
  \<open>now()\<close> is a parameter of every handler. Command ids are the UUIDs that
  \<open>uuid_generate_v4()\<close> hands out; they are natural numbers here and the fresh one is
  a parameter of the insert. An id in a request that is not written as a UUID makes the
  statement fail; the type of ids holds the well-formed ones only. A request field that
  is absent and one that is the empty string are both falsy in JavaScript and are both
  the empty string here.
\<close>

type_synonym uuid = nat
type_synonym timestamp = nat

datatype error = InvalidArgument | Unauthorized | NotFound | ServerError | ServiceUnavailable

fun http_status :: "error \<Rightarrow> nat" where
  "http_status InvalidArgument = 400"
| "http_status Unauthorized = 401"
| "http_status NotFound = 404"
| "http_status ServerError = 500"
| "http_status ServiceUnavailable = 503"

datatype cmd_status = Queued | Sent | Done | Failed

text \<open>
  The JSON values a command payload can be. Arrays are left out: \<open>typeof\<close> calls them
  \<open>object\<close> as well, and what the database driver then sends for one is not code of
  this repository.
\<close>

datatype jsval = JUndefined | JNull | JBool bool | JNum int | JStr string
  | JObj "(string \<times> string) list"

fun js_typeof :: "jsval \<Rightarrow> string" where
  "js_typeof JUndefined = ''undefined''"
| "js_typeof JNull = ''object''"
| "js_typeof (JBool b) = ''boolean''"
| "js_typeof (JNum n) = ''number''"
| "js_typeof (JStr s) = ''string''"
| "js_typeof (JObj kvs) = ''object''"

record command =
  c_id :: uuid
  c_device_id :: string
  c_kind :: string
  c_payload :: jsval
  c_status :: cmd_status
  c_created_at :: timestamp
  c_sent_at :: "timestamp option"
  c_done_at :: "timestamp option"
  c_error :: "string option"

record dev_info =
  appVersion :: "string option"
  tauriVersion :: "string option"
  osName :: "string option"
  osVersion :: "string option"
  arch :: "string option"
  hostname :: "string option"
  username :: "string option"

record device =
  d_device_id :: string
  d_info :: dev_info
  d_device_secret :: "string option"
  d_status :: string
  d_first_seen_at :: "timestamp option"
  d_last_seen_at :: "timestamp option"
  d_updated_at :: "timestamp option"
  d_ip_last :: "string option"

record state =
  devices :: "device list"
  commands :: "command list"

definition truthy :: "string \<Rightarrow> bool" where
  "truthy s \<longleftrightarrow> s \<noteq> []"

definition truthy_opt :: "string option \<Rightarrow> bool" where
  "truthy_opt v = (case v of None \<Rightarrow> False | Some s \<Rightarrow> truthy s)"

definition coalesce :: "'a option \<Rightarrow> 'a option \<Rightarrow> 'a option" where
  "coalesce a b = (case a of Some x \<Rightarrow> Some x | None \<Rightarrow> b)"

section \<open>Device authentication for poll\<close>

text \<open>
  \<open>findDeviceForAuth\<close>: the row of the device is read; a stored secret that is truthy
  and equal to the supplied one verifies; a missing (or empty) stored secret with a
  supplied secret longer than 8 is written to the row and accepted; everything else,
  and a device id with no row, is \<open>null\<close>. The secret is stored and compared as it is.
\<close>

definition findDeviceForAuth ::
  "string \<Rightarrow> string \<Rightarrow> device list \<Rightarrow> (string \<times> string option) option \<times> device list" where
  "findDeviceForAuth deviceId deviceSecret devs =
     (case find (\<lambda>d. d_device_id d = deviceId) devs of
        None \<Rightarrow> (None, devs)
      | Some d \<Rightarrow>
          if truthy_opt (d_device_secret d) \<and> d_device_secret d = Some deviceSecret
          then (Some (d_device_id d, d_device_secret d), devs)
          else if \<not> truthy_opt (d_device_secret d) \<and> truthy deviceSecret \<and> length deviceSecret > 8
          then (Some (deviceId, Some deviceSecret),
                map (\<lambda>r. if d_device_id r = deviceId
                          then r\<lparr>d_device_secret := Some deviceSecret\<rparr> else r) devs)
          else (None, devs))"

section \<open>The command queue\<close>

text \<open>
  One pass of the results loop of \<open>POST /v1/devices/poll\<close>: the \<open>UPDATE\<close> whose
  \<open>WHERE\<close> clause is \<open>id=$1 AND device_id=$4\<close>. The error text is \<open>null\<close> on success and
  \<open>r.error || 'error'\<close> otherwise.
\<close>

definition error_text :: "bool \<Rightarrow> string option \<Rightarrow> string option" where
  "error_text ok err =
     (if ok then None
      else Some (case err of None \<Rightarrow> ''error'' | Some e \<Rightarrow> if truthy e then e else ''error''))"

definition recordResult ::
  "timestamp \<Rightarrow> uuid \<Rightarrow> string \<Rightarrow> bool \<Rightarrow> string option \<Rightarrow> command list \<Rightarrow> command list" where
  "recordResult now commandId deviceId ok err cmds =
     map (\<lambda>c. if c_id c = commandId \<and> c_device_id c = deviceId
               then c\<lparr>c_status := (if ok then Done else Failed),
                      c_done_at := Some now,
                      c_error := error_text ok err\<rparr>
               else c) cmds"

text \<open>
  A result entry of the request body: \<open>None\<close> is a \<open>null\<close> entry, \<open>r_id = None\<close> an
  entry with no (or a falsy) id; both are skipped by \<open>if (!r || !r.id) continue\<close>.
\<close>

record result_entry =
  r_id :: "uuid option"
  r_ok :: bool
  r_error :: "string option"

fun recordResults ::
  "timestamp \<Rightarrow> string \<Rightarrow> result_entry option list \<Rightarrow> command list \<Rightarrow> command list" where
  "recordResults now deviceId [] cmds = cmds"
| "recordResults now deviceId (r # rs) cmds =
     (case r of
        None \<Rightarrow> recordResults now deviceId rs cmds
      | Some e \<Rightarrow>
          (case r_id e of
             None \<Rightarrow> recordResults now deviceId rs cmds
           | Some i \<Rightarrow>
               recordResults now deviceId rs (recordResult now i deviceId (r_ok e) (r_error e) cmds)))"

text \<open>
  The dispatch statement: the inner \<open>SELECT\<close> takes the ids of the first \<open>LIMIT\<close> queued
  rows of the device \<open>ORDER BY created_at ASC\<close> (a stable sort of the table: the query
  names no second key); the outer \<open>UPDATE\<close> marks every row whose id is among them as
  sent and \<open>RETURNING\<close> gives back \<open>id, kind, payload\<close> of the rows it rewrote, in
  the order of the table. The limit is \<open>Math.max(1, Math.min(20, max))\<close>; \<open>max\<close> is an
  integer here.
\<close>

definition clamp_max :: "int \<Rightarrow> nat" where
  "clamp_max m = nat (max 1 (min 20 m))"

definition select_queued :: "string \<Rightarrow> nat \<Rightarrow> command list \<Rightarrow> uuid list" where
  "select_queued deviceId n cmds =
     map c_id (take n (sort_key c_created_at
       (filter (\<lambda>c. c_device_id c = deviceId \<and> c_status c = Queued) cmds)))"

definition takeNextBatch ::
  "timestamp \<Rightarrow> string \<Rightarrow> int \<Rightarrow> command list \<Rightarrow> (uuid \<times> string \<times> jsval) list \<times> command list" where
  "takeNextBatch now deviceId m cmds =
     (let ids = select_queued deviceId (clamp_max m) cmds in
      (map (\<lambda>c. (c_id c, c_kind c, c_payload c)) (filter (\<lambda>c. c_id c \<in> set ids) cmds),
       map (\<lambda>c. if c_id c \<in> set ids then c\<lparr>c_status := Sent, c_sent_at := Some now\<rparr> else c) cmds))"

section \<open>The poll handler\<close>

text \<open>
  \<open>POST /v1/devices/poll\<close>: 400 when the device id or the secret is missing, 401 when
  \<open>findDeviceForAuth\<close> answers \<open>null\<close>; then the results loop, then the dispatch, whose
  rows are the response. \<open>max\<close> defaults to 5 and \<open>results\<close> to the empty list.
\<close>

record poll_req =
  p_deviceId :: string
  p_deviceSecret :: string
  p_max :: "int option"
  p_results :: "result_entry option list"

definition poll ::
  "timestamp \<Rightarrow> poll_req \<Rightarrow> state \<Rightarrow> (error + (uuid \<times> string \<times> jsval) list) \<times> state" where
  "poll now req st =
     (if \<not> truthy (p_deviceId req) \<or> \<not> truthy (p_deviceSecret req)
      then (Inl InvalidArgument, st)
      else
        (case findDeviceForAuth (p_deviceId req) (p_deviceSecret req) (devices st) of
           (None, devs) \<Rightarrow> (Inl Unauthorized, st\<lparr>devices := devs\<rparr>)
         | (Some dev, devs) \<Rightarrow>
             (let cmds1 = recordResults now (p_deviceId req) (p_results req) (commands st);
                  (rows, cmds2) = takeNextBatch now (p_deviceId req)
                                    (case p_max req of None \<Rightarrow> 5 | Some m \<Rightarrow> m) cmds1
              in (Inr rows, \<lparr>devices = devs, commands = cmds2\<rparr>))))"

section \<open>Registration\<close>

text \<open>
  \<open>POST /v1/devices/register\<close> of the server that owns the command queue: an upsert on
  \<open>device_id\<close>. A new row gets status \<open>active\<close> and the three timestamps; on conflict
  every column but \<open>status\<close> and \<open>first_seen_at\<close> is overwritten, the secret by
  \<open>COALESCE(EXCLUDED.device_secret, devices.device_secret)\<close>. The handler asks for no
  proof of the old secret. The audit row it adds to \<open>device_events\<close> is not part of the
  state, since nothing here reads that table.
\<close>

record register_req =
  g_deviceId :: string
  g_deviceSecret :: string
  g_info :: dev_info

definition upsert_device ::
  "timestamp \<Rightarrow> register_req \<Rightarrow> string option \<Rightarrow> device list \<Rightarrow> device list" where
  "upsert_device now req ip devs =
     (if g_deviceId req \<in> set (map d_device_id devs)
      then map (\<lambda>d. if d_device_id d = g_deviceId req
                     then d\<lparr>d_info := g_info req,
                            d_device_secret := coalesce (Some (g_deviceSecret req)) (d_device_secret d),
                            d_last_seen_at := Some now,
                            d_ip_last := ip,
                            d_updated_at := Some now\<rparr>
                     else d) devs
      else devs @ [\<lparr>d_device_id = g_deviceId req, d_info = g_info req,
                     d_device_secret = Some (g_deviceSecret req), d_status = ''active'',
                     d_first_seen_at = Some now, d_last_seen_at = Some now,
                     d_updated_at = Some now, d_ip_last = ip\<rparr>])"

definition register ::
  "timestamp \<Rightarrow> register_req \<Rightarrow> string option \<Rightarrow> state \<Rightarrow> (error + unit) \<times> state" where
  "register now req ip st =
     (if \<not> truthy (g_deviceId req) \<or> \<not> truthy (g_deviceSecret req)
      then (Inl InvalidArgument, st)
      else (Inr (), st\<lparr>devices := upsert_device now req ip (devices st)\<rparr>))"




section \<open>Admin authentication\<close>

text \<open>
  \<open>ADMIN_TOKEN\<close> is the environment variable (empty when unset), \<open>authorization\<close> the
  request header (empty when absent). The server with the command queue strips
  \<open>/^Bearer\s+/i\<close>, trims, and lets the request through when no token is configured or
  the tokens are equal. The older server answers 503 when no token is configured and
  compares the whole header with \<open>Bearer \<close> followed by the token.
\<close>

text \<open>
  A header value reaches the handler as a string of code units below 256, which is what
  a character is here. Of these, \<open>\s\<close> and \<open>trim\<close> remove tab, line feed, vertical tab,
  form feed, carriage return, space and the no-break space \<open>U+00A0\<close>; the other blanks
  of JavaScript lie above 255. A configured token can match a header only if it is
  made of such code units as well.
\<close>

definition is_space :: "char \<Rightarrow> bool" where
  "is_space c \<longleftrightarrow>
     c \<in> set [CHR 0x09, CHR 0x0A, CHR 0x0B, CHR 0x0C, CHR 0x0D, CHR 0x20, CHR 0xA0]"

definition trim :: "string \<Rightarrow> string" where
  "trim s = rev (dropWhile is_space (rev (dropWhile is_space s)))"

definition strip_bearer :: "string \<Rightarrow> string" where
  "strip_bearer h =
     (if list_all2 (\<lambda>c (u, l). c = u \<or> c = l) (take 6 h) (zip ''BEARER'' ''bearer'')
         \<and> (case drop 6 h of [] \<Rightarrow> False | c # cs \<Rightarrow> is_space c)
      then dropWhile is_space (drop 6 h) else h)"

definition adminAuth_part001 :: "string \<Rightarrow> string \<Rightarrow> error + unit" where
  "adminAuth_part001 ADMIN_TOKEN authorization =
     (let token = trim (strip_bearer authorization)
      in if \<not> truthy ADMIN_TOKEN \<or> token = ADMIN_TOKEN then Inr () else Inl Unauthorized)"

definition adminAuth_part003 :: "string \<Rightarrow> string \<Rightarrow> error + unit" where
  "adminAuth_part003 ADMIN_TOKEN authorization =
     (if \<not> truthy ADMIN_TOKEN then Inl ServiceUnavailable
      else if authorization = ''Bearer '' @ ADMIN_TOKEN then Inr ()
      else Inl Unauthorized)"

section \<open>Admin operations on the queue and the device table\<close>

text \<open>
  \<open>POST /admin/api/devices/:id/commands\<close>: the handler checks \<open>kind\<close> and
  \<open>typeof payload\<close> and inserts. It does not look the device up: a device id with no
  row violates the foreign key of \<open>device_commands\<close>, a \<open>null\<close> payload the
  \<open>NOT NULL\<close> of the column, a repeated id the primary key; each makes the insert
  throw, and the \<open>catch\<close> answers 500. The new row takes the column defaults:
  status \<open>queued\<close>, \<open>created_at = now()\<close>, no other timestamp, no error.
\<close>

definition new_command :: "timestamp \<Rightarrow> uuid \<Rightarrow> string \<Rightarrow> string \<Rightarrow> jsval \<Rightarrow> command" where
  "new_command now newid deviceId kind payload =
     \<lparr>c_id = newid, c_device_id = deviceId, c_kind = kind, c_payload = payload,
      c_status = Queued, c_created_at = now, c_sent_at = None, c_done_at = None,
      c_error = None\<rparr>"

definition enqueue ::
  "timestamp \<Rightarrow> uuid \<Rightarrow> string \<Rightarrow> string \<Rightarrow> jsval \<Rightarrow> state \<Rightarrow> (error + unit) \<times> state" where
  "enqueue now newid deviceId kind payload st =
     (if \<not> truthy kind \<or> js_typeof payload \<noteq> ''object'' then (Inl InvalidArgument, st)
      else if payload = JNull
              \<or> deviceId \<notin> set (map d_device_id (devices st))
              \<or> newid \<in> set (map c_id (commands st))
      then (Inl ServerError, st)
      else (Inr (), st\<lparr>commands := commands st @ [new_command now newid deviceId kind payload]\<rparr>))"

text \<open>
  \<open>POST /admin/api/devices/:id/status\<close> of the same server: any non-empty status is
  written to the rows of that device id, and the answer is \<open>ok\<close> whether or not there
  is one.
\<close>

definition set_status ::
  "timestamp \<Rightarrow> string \<Rightarrow> string \<Rightarrow> state \<Rightarrow> (error + unit) \<times> state" where
  "set_status now deviceId status st =
     (if \<not> truthy status then (Inl InvalidArgument, st)
      else (Inr (), st\<lparr>devices := map (\<lambda>d. if d_device_id d = deviceId
                                            then d\<lparr>d_status := status, d_updated_at := Some now\<rparr>
                                            else d) (devices st)\<rparr>))"

section \<open>Runs of the server\<close>

text \<open>
  The requests that write to \<open>devices\<close> or \<open>device_commands\<close>. The admin requests carry
  their \<open>Authorization\<close> header and pass through \<open>adminAuth\<close> first. The remaining
  routes only read these two tables or write to \<open>device_notes\<close>.
\<close>

datatype event =
    Register register_req "string option"
  | Poll poll_req
  | AdminEnqueue string uuid string string jsval
  | AdminSetStatus string string string

fun step :: "string \<Rightarrow> timestamp \<Rightarrow> event \<Rightarrow> state \<Rightarrow> state" where
  "step tok now (Register req ip) st = snd (register now req ip st)"
| "step tok now (Poll req) st = snd (poll now req st)"
| "step tok now (AdminEnqueue hdr newid deviceId kind payload) st =
     (case adminAuth_part001 tok hdr of
        Inl e \<Rightarrow> st
      | Inr u \<Rightarrow> snd (enqueue now newid deviceId kind payload st))"
| "step tok now (AdminSetStatus hdr deviceId status) st =
     (case adminAuth_part001 tok hdr of
        Inl e \<Rightarrow> st
      | Inr u \<Rightarrow> snd (set_status now deviceId status st))"

fun states :: "string \<Rightarrow> (timestamp \<times> event) list \<Rightarrow> state \<Rightarrow> state list" where
  "states tok [] st = [st]"
| "states tok ((now, e) # evs) st = st # states tok evs (step tok now e st)"

text \<open>
  A run is a list of requests, each with the time at which it is served; \<open>states\<close>
  lists the state before the first request and after each one. The history of a command
  is the sequence of its statuses over these states, repeated values merged.
\<close>

definition init :: state where
  "init = \<lparr>devices = [], commands = []\<rparr>"

definition status_of :: "uuid \<Rightarrow> state \<Rightarrow> cmd_status list" where
  "status_of cid st = map c_status (filter (\<lambda>c. c_id c = cid) (commands st))"

definition status_history :: "string \<Rightarrow> (timestamp \<times> event) list \<Rightarrow> uuid \<Rightarrow> cmd_status list" where
  "status_history tok evs cid = remdups_adj (concat (map (status_of cid) (states tok evs init)))"

section \<open>Auxiliary predicates and sample data\<close>

definition no_queued :: "uuid \<Rightarrow> string \<Rightarrow> command list \<Rightarrow> bool" where
  "no_queued a d cmds \<longleftrightarrow>
     (\<forall>c\<in>set cmds. \<not> (c_id c = a \<and> c_device_id c = d \<and> c_status c = Queued))"

definition ex_info :: dev_info where
  "ex_info = \<lparr>appVersion = Some ''1.0.0'', tauriVersion = None, osName = Some ''linux'',
              osVersion = Some ''6.1'', arch = Some ''x86_64'', hostname = Some ''host-1'',
              username = None\<rparr>"

definition ex_device :: "string \<Rightarrow> string option \<Rightarrow> device" where
  "ex_device i s = \<lparr>d_device_id = i, d_info = ex_info, d_device_secret = s,
                    d_status = ''active'', d_first_seen_at = Some 1, d_last_seen_at = Some 1,
                    d_updated_at = Some 1, d_ip_last = None\<rparr>"

definition ex_command :: "uuid \<Rightarrow> string \<Rightarrow> string \<Rightarrow> cmd_status \<Rightarrow> timestamp \<Rightarrow> command" where
  "ex_command i d k s t = \<lparr>c_id = i, c_device_id = d, c_kind = k, c_payload = JObj [],
                           c_status = s, c_created_at = t, c_sent_at = None, c_done_at = None,
                           c_error = None\<rparr>"

definition ex_entry :: "uuid \<Rightarrow> bool \<Rightarrow> string option \<Rightarrow> result_entry" where
  "ex_entry i ok err = \<lparr>r_id = Some i, r_ok = ok, r_error = err\<rparr>"

definition ex_poll :: "string \<Rightarrow> string \<Rightarrow> int option \<Rightarrow> result_entry option list \<Rightarrow> poll_req" where
  "ex_poll i s m rs = \<lparr>p_deviceId = i, p_deviceSecret = s, p_max = m, p_results = rs\<rparr>"

definition ex_state :: state where
  "ex_state = \<lparr>devices = [ex_device ''dev-1'' (Some ''secret-0001'')],
               commands = [ex_command 7 ''dev-1'' ''ping'' Sent 2,
                           ex_command 8 ''dev-1'' ''update'' Queued 3]\<rparr>"

definition no_sent :: "uuid \<Rightarrow> string \<Rightarrow> command list \<Rightarrow> bool" where
  "no_sent i d cmds \<longleftrightarrow>
     (\<forall>c\<in>set cmds. \<not> (c_id c = i \<and> c_device_id c = d \<and> c_status c = Sent))"

definition no_match :: "uuid \<Rightarrow> string \<Rightarrow> command list \<Rightarrow> bool" where
  "no_match i d cmds \<longleftrightarrow> (\<forall>c\<in>set cmds. \<not> (c_id c = i \<and> c_device_id c = d))"

definition recorded :: "timestamp \<Rightarrow> bool \<Rightarrow> string option \<Rightarrow> command \<Rightarrow> bool" where
  "recorded now ok err c \<longleftrightarrow>
     c_status c = (if ok then Done else Failed) \<and> c_done_at c = Some now
     \<and> c_error c = error_text ok err"

definition set_secret :: "string \<Rightarrow> string \<Rightarrow> device list \<Rightarrow> device list" where
  "set_secret deviceId deviceSecret devs =
     map (\<lambda>r. if d_device_id r = deviceId then r\<lparr>d_device_secret := Some deviceSecret\<rparr> else r) devs"

definition stored_secret :: "string \<Rightarrow> device list \<Rightarrow> string option" where
  "stored_secret j devs =
     (case find (\<lambda>d. d_device_id d = j) devs of None \<Rightarrow> None | Some d \<Rightarrow> d_device_secret d)"


definition is_register :: "event \<Rightarrow> bool" where
  "is_register e = (case e of Register req ip \<Rightarrow> True | _ \<Rightarrow> False)"

definition ex_register :: "string \<Rightarrow> string \<Rightarrow> register_req" where
  "ex_register i s = \<lparr>g_deviceId = i, g_deviceSecret = s, g_info = ex_info\<rparr>"

definition device_ids :: "state \<Rightarrow> string list" where
  "device_ids st = map d_device_id (devices st)"

definition command_ids :: "state \<Rightarrow> uuid list" where
  "command_ids st = map c_id (commands st)"

definition queued_of :: "string \<Rightarrow> command list \<Rightarrow> command list" where
  "queued_of d cmds = filter (\<lambda>c. c_device_id c = d \<and> c_status c = Queued) cmds"

definition batch :: "string \<Rightarrow> nat \<Rightarrow> command list \<Rightarrow> command list" where
  "batch d n cmds = take n (sort_key c_created_at (queued_of d cmds))"

definition mark_sent :: "timestamp \<Rightarrow> command \<Rightarrow> command" where
  "mark_sent now c = c\<lparr>c_status := Sent, c_sent_at := Some now\<rparr>"

definition ex_queue :: "command list" where
  "ex_queue = [ex_command 7 ''dev-1'' ''ping'' Queued 3,
               ex_command 8 ''dev-1'' ''update'' Queued 4,
               ex_command 5 ''dev-2'' ''ping'' Queued 1]"

fun rank :: "cmd_status \<Rightarrow> nat" where
  "rank Queued = 0"
| "rank Sent = 1"
| "rank Done = 2"
| "rank Failed = 2"

definition advances :: "command \<Rightarrow> command \<Rightarrow> bool" where
  "advances c c' \<longleftrightarrow> c_id c' = c_id c \<and> rank (c_status c) \<le> rank (c_status c')"

definition ex_run :: "(timestamp \<times> event) list" where
  "ex_run = [(1, Register (ex_register ''dev-1'' ''secret-0001'') None),
             (2, AdminEnqueue ''Bearer tok'' 7 ''dev-1'' ''ping'' (JObj [])),
             (3, Poll (ex_poll ''dev-1'' ''secret-0001'' (Some 1) [])),
             (4, Poll (ex_poll ''dev-1'' ''secret-0001'' None [Some (ex_entry 7 True None)])),
             (5, Poll (ex_poll ''dev-1'' ''secret-0001'' None
                         [Some (ex_entry 7 False (Some ''boom''))]))]"

definition ex_run_skip :: "(timestamp \<times> event) list" where
  "ex_run_skip = [(1, Register (ex_register ''dev-1'' ''secret-0001'') None),
                  (2, AdminEnqueue ''Bearer tok'' 7 ''dev-1'' ''ping'' (JObj [])),
                  (3, Poll (ex_poll ''dev-1'' ''secret-0001'' None
                              [Some (ex_entry 7 True None)]))]"

definition trace :: "string \<Rightarrow> (timestamp \<times> event) list \<Rightarrow> state \<Rightarrow> uuid \<Rightarrow> cmd_status list" where
  "trace tok evs st cid = concat (map (status_of cid) (states tok evs st))"

fun last_report :: "uuid \<Rightarrow> result_entry option list \<Rightarrow> result_entry option" where
  "last_report a [] = None"
| "last_report a (r # rs) =
     (case last_report a rs of
        Some e \<Rightarrow> Some e
      | None \<Rightarrow> (case r of
                   None \<Rightarrow> None
                 | Some e \<Rightarrow> if r_id e = Some a then Some e else None))"

definition ex_state_queued :: state where
  "ex_state_queued = \<lparr>devices = [ex_device ''dev-1'' (Some ''secret-0001'')],
                      commands = [ex_command 7 ''dev-1'' ''ping'' Queued 2,
                                  ex_command 8 ''dev-1'' ''update'' Queued 3]\<rparr>"




definition registers_device :: "string \<Rightarrow> event \<Rightarrow> bool" where
  "registers_device i e = (case e of Register req ip \<Rightarrow> g_deviceId req = i | _ \<Rightarrow> False)"

fun run :: "string \<Rightarrow> (timestamp \<times> event) list \<Rightarrow> state \<Rightarrow> state" where
  "run tok [] st = st"
| "run tok ((now, e) # evs) st = run tok evs (step tok now e st)"

section \<open>Results are recorded before the next batch is taken\<close>

lemma recordResult_row:
  "x \<in> set (recordResult now i d ok err cmds) \<Longrightarrow>
   \<exists>c\<in>set cmds. c_id x = c_id c \<and> c_device_id x = c_device_id c \<and>
     (c_status x = Queued \<longrightarrow> c_status c = Queued \<and> \<not> (c_id c = i \<and> c_device_id c = d))"
  by (auto simp: recordResult_def)

lemma recordResult_keeps_not_queued:
  assumes "no_queued a d cmds"
  shows "no_queued a d (recordResult now i d' ok err cmds)"
  unfolding no_queued_def
proof (intro ballI notI)
  fix x assume x: "x \<in> set (recordResult now i d' ok err cmds)"
    and q: "c_id x = a \<and> c_device_id x = d \<and> c_status x = Queued"
  from recordResult_row[OF x] obtain c where "c \<in> set cmds" "c_id x = c_id c"
    "c_device_id x = c_device_id c" "c_status x = Queued \<longrightarrow> c_status c = Queued" by blast
  with q assms show False unfolding no_queued_def by metis
qed

lemma recordResult_finalises: "no_queued a d (recordResult now a d ok err cmds)"
  unfolding no_queued_def
proof (intro ballI notI)
  fix x assume x: "x \<in> set (recordResult now a d ok err cmds)"
    and q: "c_id x = a \<and> c_device_id x = d \<and> c_status x = Queued"
  from recordResult_row[OF x] obtain c where "c \<in> set cmds" "c_id x = c_id c"
    "c_device_id x = c_device_id c"
    "c_status x = Queued \<longrightarrow> c_status c = Queued \<and> \<not> (c_id c = a \<and> c_device_id c = d)" by blast
  with q show False by metis
qed

lemma recordResults_keeps_not_queued:
  "no_queued a d cmds \<Longrightarrow> no_queued a d (recordResults now d' rs cmds)"
proof (induction rs arbitrary: cmds)
  case Nil
  then show ?case by simp
next
  case (Cons r rs)
  show ?case
  proof (cases r)
    case None
    with Cons show ?thesis by simp
  next
    case (Some e)
    show ?thesis
    proof (cases "r_id e")
      case None
      with \<open>r = Some e\<close> Cons show ?thesis by simp
    next
      case (Some i)
      have "no_queued a d (recordResult now i d' (r_ok e) (r_error e) cmds)"
        using Cons.prems by (rule recordResult_keeps_not_queued)
      from Cons.IH[OF this] show ?thesis using \<open>r = Some e\<close> Some by simp
    qed
  qed
qed

lemma recordResults_finalises:
  "Some e \<in> set rs \<Longrightarrow> r_id e = Some a \<Longrightarrow> no_queued a d (recordResults now d rs cmds)"
proof (induction rs arbitrary: cmds)
  case Nil
  then show ?case by simp
next
  case (Cons r rs)
  show ?case
  proof (cases "r = Some e")
    case True
    have "no_queued a d (recordResult now a d (r_ok e) (r_error e) cmds)"
      by (rule recordResult_finalises)
    from recordResults_keeps_not_queued[OF this] show ?thesis
      using True Cons.prems(2) by simp
  next
    case False
    with Cons.prems have in_tl: "Some e \<in> set rs" by simp
    show ?thesis
    proof (cases r)
      case None
      then show ?thesis using Cons.IH[OF in_tl Cons.prems(2)] by simp
    next
      case (Some e')
      then show ?thesis using Cons.IH[OF in_tl Cons.prems(2)]
        by (cases "r_id e'") simp_all
    qed
  qed
qed

lemma select_queued_sound:
  assumes "i \<in> set (select_queued d n cmds)"
  shows "\<exists>c\<in>set cmds. c_id c = i \<and> c_device_id c = d \<and> c_status c = Queued"
proof -
  from assms obtain c where c: "c \<in> set (take n (sort_key c_created_at
       (filter (\<lambda>c. c_device_id c = d \<and> c_status c = Queued) cmds)))" and i: "c_id c = i"
    by (auto simp: select_queued_def)
  from c have "c \<in> set (sort_key c_created_at
       (filter (\<lambda>c. c_device_id c = d \<and> c_status c = Queued) cmds))"
    by (rule in_set_takeD)
  then have "c \<in> set cmds \<and> c_device_id c = d \<and> c_status c = Queued"
    by simp
  with i show ?thesis by blast
qed

lemma takeNextBatch_rows_selected:
  "x \<in> set (fst (takeNextBatch now d m cmds)) \<Longrightarrow> fst x \<in> set (select_queued d (clamp_max m) cmds)"
  by (auto simp: takeNextBatch_def Let_def)

lemma poll_rows:
  assumes "fst (poll now req st) = Inr rows"
  shows "rows = fst (takeNextBatch now (p_deviceId req)
                  (case p_max req of None \<Rightarrow> 5 | Some m \<Rightarrow> m)
                  (recordResults now (p_deviceId req) (p_results req) (commands st)))"
proof -
  obtain r devs where f: "findDeviceForAuth (p_deviceId req) (p_deviceSecret req) (devices st) = (r, devs)"
    by (cases "findDeviceForAuth (p_deviceId req) (p_deviceSecret req) (devices st)")
  obtain rs cs where t: "takeNextBatch now (p_deviceId req)
                  (case p_max req of None \<Rightarrow> 5 | Some m \<Rightarrow> m)
                  (recordResults now (p_deviceId req) (p_results req) (commands st)) = (rs, cs)"
    by (cases "takeNextBatch now (p_deviceId req)
                  (case p_max req of None \<Rightarrow> 5 | Some m \<Rightarrow> m)
                  (recordResults now (p_deviceId req) (p_results req) (commands st))")
  from assms f t show ?thesis
    by (cases r) (simp_all add: poll_def Let_def split: if_splits)
qed

section \<open>Recording a result\<close>

lemma recordResult_no_match: "no_match i d cmds \<Longrightarrow> recordResult now i d ok err cmds = cmds"
proof -
  assume nm: "no_match i d cmds"
  show ?thesis unfolding recordResult_def
  proof (rule map_idI)
    fix x assume "x \<in> set cmds"
    with nm have "\<not> (c_id x = i \<and> c_device_id x = d)"
      unfolding no_match_def by blast
    then show "(if c_id x = i \<and> c_device_id x = d
                then x\<lparr>c_status := (if ok then Done else Failed), c_done_at := Some now,
                       c_error := error_text ok err\<rparr> else x) = x"
      by (rule if_not_P)
  qed
qed

lemma recordResult_twice:
  "recordResult t2 i d ok2 e2 (recordResult t1 i d ok1 e1 cmds) = recordResult t2 i d ok2 e2 cmds"
  by (simp add: recordResult_def)

lemma recordResult_matched:
  assumes "x \<in> set (recordResult now i d ok err cmds)" and "c_id x = i \<and> c_device_id x = d"
  shows "recorded now ok err x"
proof -
  from assms(1) obtain c where c: "c \<in> set cmds"
    and x: "x = (if c_id c = i \<and> c_device_id c = d
               then c\<lparr>c_status := (if ok then Done else Failed), c_done_at := Some now,
                      c_error := error_text ok err\<rparr> else c)"
    by (auto simp: recordResult_def)
  show ?thesis
  proof (cases "c_id c = i \<and> c_device_id c = d")
    case True
    with x show ?thesis by (simp add: recorded_def)
  next
    case False
    with x have "x = c" by simp
    with False assms(2) show ?thesis by simp
  qed
qed

lemma recordResult_columns:
  "map c_id (recordResult now i d ok err cmds) = map c_id cmds
   \<and> map c_device_id (recordResult now i d ok err cmds) = map c_device_id cmds
   \<and> map c_kind (recordResult now i d ok err cmds) = map c_kind cmds
   \<and> map c_payload (recordResult now i d ok err cmds) = map c_payload cmds
   \<and> map c_created_at (recordResult now i d ok err cmds) = map c_created_at cmds
   \<and> map c_sent_at (recordResult now i d ok err cmds) = map c_sent_at cmds"
  by (simp add: recordResult_def)

text \<open>
  C1 as stated fails: the \<open>UPDATE\<close> of the results loop has no condition on the status.
  A command of the device that was sent and reported done at time 5 is, at that point,
  not in status sent; a second report for the same id, at time 9 and with an error,
  is not a no-op: it turns the command to failed, moves \<open>done_at\<close> to 9 and sets the
  error text.
\<close>

theorem recordResult_overwrites_counterexample:
  "no_sent 7 ''dev-1'' (recordResult 5 7 ''dev-1'' True None [ex_command 7 ''dev-1'' ''ping'' Sent 2])
   \<and> map c_status (recordResult 5 7 ''dev-1'' True None [ex_command 7 ''dev-1'' ''ping'' Sent 2]) = [Done]
   \<and> map c_done_at (recordResult 5 7 ''dev-1'' True None [ex_command 7 ''dev-1'' ''ping'' Sent 2]) = [Some 5]
   \<and> map c_error (recordResult 5 7 ''dev-1'' True None [ex_command 7 ''dev-1'' ''ping'' Sent 2]) = [None]
   \<and> recordResult 9 7 ''dev-1'' False (Some ''boom'')
        (recordResult 5 7 ''dev-1'' True None [ex_command 7 ''dev-1'' ''ping'' Sent 2])
      \<noteq> recordResult 5 7 ''dev-1'' True None [ex_command 7 ''dev-1'' ''ping'' Sent 2]
   \<and> map c_status (recordResult 9 7 ''dev-1'' False (Some ''boom'')
        (recordResult 5 7 ''dev-1'' True None [ex_command 7 ''dev-1'' ''ping'' Sent 2])) = [Failed]
   \<and> map c_done_at (recordResult 9 7 ''dev-1'' False (Some ''boom'')
        (recordResult 5 7 ''dev-1'' True None [ex_command 7 ''dev-1'' ''ping'' Sent 2])) = [Some 9]
   \<and> map c_error (recordResult 9 7 ''dev-1'' False (Some ''boom'')
        (recordResult 5 7 ''dev-1'' True None [ex_command 7 ''dev-1'' ''ping'' Sent 2])) = [Some ''boom'']"
  by (simp add: recordResult_def ex_command_def error_text_def truthy_def no_sent_def)

text \<open>
  C1, amended. \<open>recordResult\<close> is a no-op, and not an error, whenever no command with the
  given id and matching device id exists, whatever the status. Every command with that
  id and device id, in any status, gets the status, \<open>done_at\<close> and error text of the
  call, so a second call for the same command id overwrites what the first one set: the
  table after both calls is the table after the second alone. The id, device id, kind,
  payload, \<open>created_at\<close> and \<open>sent_at\<close> of every command stay as they were.
\<close>

theorem recordResult_last_write_wins:
  "(no_match i d cmds \<longrightarrow> recordResult now i d ok err cmds = cmds)
   \<and> (\<forall>x\<in>set (recordResult now i d ok err cmds).
         c_id x = i \<and> c_device_id x = d \<longrightarrow> recorded now ok err x)
   \<and> recordResult t2 i d ok2 e2 (recordResult now i d ok err cmds) = recordResult t2 i d ok2 e2 cmds
   \<and> map c_id (recordResult now i d ok err cmds) = map c_id cmds
   \<and> map c_device_id (recordResult now i d ok err cmds) = map c_device_id cmds
   \<and> map c_kind (recordResult now i d ok err cmds) = map c_kind cmds
   \<and> map c_payload (recordResult now i d ok err cmds) = map c_payload cmds
   \<and> map c_created_at (recordResult now i d ok err cmds) = map c_created_at cmds
   \<and> map c_sent_at (recordResult now i d ok err cmds) = map c_sent_at cmds"
  using recordResult_no_match[of i d cmds now ok err] recordResult_matched[of _ now i d ok err cmds]
    recordResult_twice[of t2 i d ok2 e2 now ok err cmds] recordResult_columns[of now i d ok err cmds]
  by blast

theorem recordResult_last_write_wins_witness:
  "no_match 7 ''dev-2'' [ex_command 7 ''dev-1'' ''ping'' Sent 2]
   \<and> recordResult 5 7 ''dev-2'' True None [ex_command 7 ''dev-1'' ''ping'' Sent 2]
       = [ex_command 7 ''dev-1'' ''ping'' Sent 2]
   \<and> ex_command 7 ''dev-1'' ''ping'' Sent 2\<lparr>c_status := Done, c_done_at := Some 5\<rparr>
       \<in> set (recordResult 5 7 ''dev-1'' True None [ex_command 7 ''dev-1'' ''ping'' Sent 2])
   \<and> recorded 5 True None (ex_command 7 ''dev-1'' ''ping'' Sent 2\<lparr>c_status := Done, c_done_at := Some 5\<rparr>)"
proof -
  have h1: "no_match 7 ''dev-2'' [ex_command 7 ''dev-1'' ''ping'' Sent 2]"
    by (simp add: no_match_def ex_command_def)
  have h2: "ex_command 7 ''dev-1'' ''ping'' Sent 2\<lparr>c_status := Done, c_done_at := Some 5\<rparr>
       \<in> set (recordResult 5 7 ''dev-1'' True None [ex_command 7 ''dev-1'' ''ping'' Sent 2])"
    by (simp add: recordResult_def ex_command_def error_text_def)
  have h3: "c_id (ex_command 7 ''dev-1'' ''ping'' Sent 2\<lparr>c_status := Done, c_done_at := Some 5\<rparr>) = 7
      \<and> c_device_id (ex_command 7 ''dev-1'' ''ping'' Sent 2\<lparr>c_status := Done, c_done_at := Some 5\<rparr>) = ''dev-1''"
    by (simp add: ex_command_def)
  from recordResult_last_write_wins[of 7 "''dev-2''" "[ex_command 7 ''dev-1'' ''ping'' Sent 2]" 5 True None] h1
  have c1: "recordResult 5 7 ''dev-2'' True None [ex_command 7 ''dev-1'' ''ping'' Sent 2]
       = [ex_command 7 ''dev-1'' ''ping'' Sent 2]" by blast
  from recordResult_last_write_wins[of 7 "''dev-1''" "[ex_command 7 ''dev-1'' ''ping'' Sent 2]" 5 True None] h2 h3
  have c2: "recorded 5 True None (ex_command 7 ''dev-1'' ''ping'' Sent 2\<lparr>c_status := Done, c_done_at := Some 5\<rparr>)"
    by blast
  from h1 c1 h2 c2 show ?thesis by (intro conjI)
qed

section \<open>Authentication of a polling device\<close>

lemma find_set_secret:
  "find (\<lambda>d. d_device_id d = i) (set_secret i s devs)
     = map_option (\<lambda>d. d\<lparr>d_device_secret := Some s\<rparr>) (find (\<lambda>d. d_device_id d = i) devs)"
  by (induction devs) (simp_all add: set_secret_def)

lemma auth_no_row:
  "find (\<lambda>d. d_device_id d = i) devs = None \<Longrightarrow> findDeviceForAuth i s devs = (None, devs)"
  by (simp add: findDeviceForAuth_def)

lemma auth_verified:
  "find (\<lambda>d. d_device_id d = i) devs = Some d \<Longrightarrow> truthy_opt (d_device_secret d)
   \<Longrightarrow> d_device_secret d = Some s
   \<Longrightarrow> findDeviceForAuth i s devs = (Some (d_device_id d, d_device_secret d), devs)"
  by (simp add: findDeviceForAuth_def)

lemma auth_bootstrap:
  "find (\<lambda>d. d_device_id d = i) devs = Some d \<Longrightarrow> \<not> truthy_opt (d_device_secret d)
   \<Longrightarrow> truthy s \<Longrightarrow> 8 < length s
   \<Longrightarrow> findDeviceForAuth i s devs = (Some (i, Some s), set_secret i s devs)"
  by (simp add: findDeviceForAuth_def set_secret_def)

lemma auth_rejected:
  "find (\<lambda>d. d_device_id d = i) devs = Some d
   \<Longrightarrow> \<not> (truthy_opt (d_device_secret d) \<and> d_device_secret d = Some s)
   \<Longrightarrow> \<not> (\<not> truthy_opt (d_device_secret d) \<and> truthy s \<and> 8 < length s)
   \<Longrightarrow> findDeviceForAuth i s devs = (None, devs)"
  by (simp add: findDeviceForAuth_def)

lemma auth_success_stored:
  assumes "fst (findDeviceForAuth i s devs) \<noteq> None"
  shows "\<exists>d. find (\<lambda>d. d_device_id d = i) (snd (findDeviceForAuth i s devs)) = Some d
             \<and> d_device_secret d = Some s \<and> truthy s"
proof (cases "find (\<lambda>d. d_device_id d = i) devs")
  case None
  with assms show ?thesis by (simp add: auth_no_row)
next
  case (Some d)
  show ?thesis
  proof (cases "truthy_opt (d_device_secret d) \<and> d_device_secret d = Some s")
    case True
    with Some show ?thesis by (auto simp: auth_verified truthy_opt_def)
  next
    case nv: False
    show ?thesis
    proof (cases "\<not> truthy_opt (d_device_secret d) \<and> truthy s \<and> 8 < length s")
      case True
      with Some show ?thesis by (simp add: auth_bootstrap find_set_secret)
    next
      case False
      with Some nv assms show ?thesis by (simp add: auth_rejected)
    qed
  qed
qed

lemma auth_other_secret_fails:
  assumes "fst (findDeviceForAuth i s devs) \<noteq> None" and "s' \<noteq> s"
  shows "fst (findDeviceForAuth i s' (snd (findDeviceForAuth i s devs))) = None"
proof -
  from auth_success_stored[OF assms(1)] obtain d where
    d: "find (\<lambda>d. d_device_id d = i) (snd (findDeviceForAuth i s devs)) = Some d"
    and st: "d_device_secret d = Some s" and ts: "truthy s" by blast
  from st ts have t: "truthy_opt (d_device_secret d)" by (simp add: truthy_opt_def)
  from st assms(2) have ne: "d_device_secret d \<noteq> Some s'" by simp
  from d t ne have "findDeviceForAuth i s' (snd (findDeviceForAuth i s devs))
      = (None, snd (findDeviceForAuth i s devs))"
    by (intro auth_rejected) blast+
  then show ?thesis by simp
qed

lemma auth_accepts_iff:
  "fst (findDeviceForAuth i s devs) \<noteq> None \<longleftrightarrow>
     (case find (\<lambda>d. d_device_id d = i) devs of
        None \<Rightarrow> False
      | Some d \<Rightarrow> truthy_opt (d_device_secret d) \<and> d_device_secret d = Some s
                  \<or> \<not> truthy_opt (d_device_secret d) \<and> truthy s \<and> 8 < length s)"
  by (auto simp: findDeviceForAuth_def split: option.splits)

lemma auth_state:
  "snd (findDeviceForAuth i s devs) =
     (case find (\<lambda>d. d_device_id d = i) devs of
        None \<Rightarrow> devs
      | Some d \<Rightarrow> if \<not> truthy_opt (d_device_secret d) \<and> truthy s \<and> 8 < length s
                  then set_secret i s devs else devs)"
  by (simp add: findDeviceForAuth_def set_secret_def split: option.splits)

lemma poll_unauthorized:
  assumes "truthy (p_deviceId req)" and "truthy (p_deviceSecret req)"
    and "fst (findDeviceForAuth (p_deviceId req) (p_deviceSecret req) (devices st)) = None"
  shows "fst (poll now req st) = Inl Unauthorized"
proof -
  obtain r devs where f: "findDeviceForAuth (p_deviceId req) (p_deviceSecret req) (devices st) = (r, devs)"
    by (cases "findDeviceForAuth (p_deviceId req) (p_deviceSecret req) (devices st)")
  with assms(3) have "r = None" by simp
  with f assms(1,2) show ?thesis by (simp add: poll_def)
qed

text \<open>
  C5 as stated fails for a device id that has no row: no secret is stored for it and a
  16-character secret meets the length policy, yet \<open>findDeviceForAuth\<close> answers \<open>null\<close>,
  nothing is written, and the poll is answered 401.
\<close>

theorem findDeviceForAuth_unknown_device_counterexample:
  "truthy ''0123456789abcdef'' \<and> 8 < length ''0123456789abcdef''
   \<and> findDeviceForAuth ''dev-new'' ''0123456789abcdef'' (devices init) = (None, devices init)
   \<and> poll 1 (ex_poll ''dev-new'' ''0123456789abcdef'' None []) init = (Inl Unauthorized, init)"
  by (simp add: findDeviceForAuth_def poll_def ex_poll_def init_def truthy_def)

section \<open>Who may write a device secret\<close>



lemma find_key_absent: "j \<notin> set (map f xs) \<Longrightarrow> find (\<lambda>d. f d = j) xs = None"
  by (induction xs) auto


lemma find_snoc:
  "find P (xs @ [x]) = (case find P xs of None \<Rightarrow> (if P x then Some x else None) | Some y \<Rightarrow> Some y)"
  by (induction xs) simp_all

lemma stored_secret_set_secret_other:
  "j \<noteq> i \<Longrightarrow> stored_secret j (set_secret i s devs) = stored_secret j devs"
  by (induction devs) (simp_all add: stored_secret_def set_secret_def)

lemma auth_keeps_stored:
  assumes "truthy_opt (stored_secret j devs)"
  shows "stored_secret j (snd (findDeviceForAuth i s devs)) = stored_secret j devs"
proof (cases "j = i")
  case True
  from assms obtain d where d: "find (\<lambda>d. d_device_id d = i) devs = Some d"
    and t: "truthy_opt (d_device_secret d)"
    unfolding True stored_secret_def by (cases "find (\<lambda>d. d_device_id d = i) devs")
      (simp_all add: truthy_opt_def)
  then show ?thesis by (simp add: auth_state)
next
  case False
  show ?thesis
  proof (cases "find (\<lambda>d. d_device_id d = i) devs")
    case None
    then show ?thesis by (simp add: auth_state)
  next
    case (Some d)
    with False show ?thesis by (simp add: auth_state stored_secret_set_secret_other)
  qed
qed

lemma poll_devices:
  "devices (snd (poll now req st)) = devices st
   \<or> devices (snd (poll now req st))
        = snd (findDeviceForAuth (p_deviceId req) (p_deviceSecret req) (devices st))"
proof -
  obtain r devs where f: "findDeviceForAuth (p_deviceId req) (p_deviceSecret req) (devices st) = (r, devs)"
    by (cases "findDeviceForAuth (p_deviceId req) (p_deviceSecret req) (devices st)")
  obtain rs cs where t: "takeNextBatch now (p_deviceId req)
                  (case p_max req of None \<Rightarrow> 5 | Some m \<Rightarrow> m)
                  (recordResults now (p_deviceId req) (p_results req) (commands st)) = (rs, cs)"
    by (cases "takeNextBatch now (p_deviceId req)
                  (case p_max req of None \<Rightarrow> 5 | Some m \<Rightarrow> m)
                  (recordResults now (p_deviceId req) (p_results req) (commands st))")
  from f t show ?thesis
    by (cases r) (simp_all add: poll_def Let_def)
qed

lemma poll_keeps_stored:
  "truthy_opt (stored_secret j (devices st))
   \<Longrightarrow> stored_secret j (devices (snd (poll now req st))) = stored_secret j (devices st)"
  using poll_devices[of now req st] auth_keeps_stored[of j "devices st"] by metis

lemma enqueue_devices: "devices (snd (enqueue now newid i kind payload st)) = devices st"
  by (simp add: enqueue_def)

lemma set_status_keeps_stored:
  "stored_secret j (devices (snd (set_status now i status st))) = stored_secret j (devices st)"
proof -
  have "stored_secret j (map (\<lambda>d. if d_device_id d = i
            then d\<lparr>d_status := status, d_updated_at := Some now\<rparr> else d) devs)
          = stored_secret j devs" for devs
    by (induction devs) (simp_all add: stored_secret_def)
  then show ?thesis by (simp add: set_status_def)
qed

lemma step_keeps_stored:
  assumes "\<not> is_register e" and "truthy_opt (stored_secret j (devices st))"
  shows "stored_secret j (devices (step tok now e st)) = stored_secret j (devices st)"
proof (cases e)
  case (Register req ip)
  with assms(1) show ?thesis by (simp add: is_register_def)
next
  case (Poll req)
  with assms(2) show ?thesis by (simp add: poll_keeps_stored)
next
  case (AdminEnqueue hdr newid i kind payload)
  then show ?thesis by (simp add: enqueue_devices split: sum.splits)
next
  case (AdminSetStatus hdr i status)
  then show ?thesis by (simp add: set_status_keeps_stored split: sum.splits)
qed










section \<open>Polling never creates a device\<close>

lemma poll_unknown_device:
  assumes "p_deviceId req \<notin> set (device_ids st)"
  shows "poll now req st =
           (Inl (if truthy (p_deviceId req) \<and> truthy (p_deviceSecret req)
                 then Unauthorized else InvalidArgument), st)"
proof -
  from assms have "find (\<lambda>d. d_device_id d = p_deviceId req) (devices st) = None"
    unfolding device_ids_def by (rule find_key_absent)
  then have "findDeviceForAuth (p_deviceId req) (p_deviceSecret req) (devices st)
               = (None, devices st)"
    by (rule auth_no_row)
  then show ?thesis by (simp add: poll_def)
qed

lemma set_secret_ids: "map d_device_id (set_secret i s devs) = map d_device_id devs"
  by (simp add: set_secret_def)

lemma auth_ids: "map d_device_id (snd (findDeviceForAuth i s devs)) = map d_device_id devs"
  by (simp add: auth_state set_secret_ids split: option.splits)

lemma poll_ids: "device_ids (snd (poll now req st)) = device_ids st"
  using poll_devices[of now req st] auth_ids[of "p_deviceId req" "p_deviceSecret req" "devices st"]
  unfolding device_ids_def by metis

lemma set_status_ids: "device_ids (snd (set_status now i status st)) = device_ids st"
  by (simp add: set_status_def device_ids_def)

lemma step_ids:
  assumes "\<not> is_register e"
  shows "device_ids (step tok now e st) = device_ids st"
proof (cases e)
  case (Register req ip)
  with assms show ?thesis by (simp add: is_register_def)
next
  case (Poll req)
  then show ?thesis by (simp add: poll_ids)
next
  case (AdminEnqueue hdr newid i kind payload)
  then show ?thesis by (simp add: enqueue_devices device_ids_def split: sum.splits)
next
  case (AdminSetStatus hdr i status)
  then show ?thesis by (simp add: set_status_ids split: sum.splits)
qed

lemma register_ids:
  "set (device_ids (snd (register now req ip st))) \<subseteq> insert (g_deviceId req) (set (device_ids st))"
  by (auto simp: register_def upsert_device_def device_ids_def)

text \<open>
  C10 as stated fails for a request that lacks the secret: the handler checks that both
  fields are present before it authenticates, and answers 400, not 401, also when the
  device id has no row.
\<close>

theorem poll_unknown_device_counterexample:
  "''ghost'' \<notin> set (device_ids init)
   \<and> poll 1 (ex_poll ''ghost'' [] None []) init = (Inl InvalidArgument, init)
   \<and> http_status InvalidArgument = 400"
  by (simp add: poll_def ex_poll_def init_def device_ids_def truthy_def)

text \<open>
  C10, amended. A poll request whose device id has no device row is answered
  Unauthorized when it carries both a device id and a secret, and InvalidArgument when
  either is missing; it is never answered NotFound, and in both cases the whole state
  (device rows and commands) is left as it was. No poll, enqueue or status update ever
  changes the list of device ids: a device row comes into existence only through
  \<open>register\<close>, and then only for the id of that request.
\<close>

theorem poll_never_creates_device:
  "(p_deviceId req \<notin> set (device_ids st)
      \<longrightarrow> poll now req st =
            (Inl (if truthy (p_deviceId req) \<and> truthy (p_deviceSecret req)
                  then Unauthorized else InvalidArgument), st))
   \<and> device_ids (snd (poll now req st)) = device_ids st
   \<and> (\<not> is_register e \<longrightarrow> device_ids (step tok now e st) = device_ids st)
   \<and> set (device_ids (snd (register now greq ip st)))
        \<subseteq> insert (g_deviceId greq) (set (device_ids st))"
  using poll_unknown_device[of req st now] poll_ids[of now req st] step_ids[of e tok now st]
    register_ids[of now greq ip st]
  by blast

theorem poll_never_creates_device_witness:
  "''ghost'' \<notin> set (device_ids ex_state)
   \<and> poll 9 (ex_poll ''ghost'' ''0123456789abcdef'' None []) ex_state = (Inl Unauthorized, ex_state)
   \<and> \<not> is_register (Poll (ex_poll ''ghost'' ''0123456789abcdef'' None []))
   \<and> device_ids (step ''tok'' 9 (Poll (ex_poll ''ghost'' ''0123456789abcdef'' None [])) ex_state)
       = [''dev-1'']"
proof -
  have h1: "p_deviceId (ex_poll ''ghost'' ''0123456789abcdef'' None []) \<notin> set (device_ids ex_state)"
    by (simp add: ex_poll_def device_ids_def ex_state_def ex_device_def)
  have h2: "\<not> is_register (Poll (ex_poll ''ghost'' ''0123456789abcdef'' None []))"
    by (simp add: is_register_def)
  have ids: "device_ids ex_state = [''dev-1'']"
    by (simp add: device_ids_def ex_state_def ex_device_def)
  note t = poll_never_creates_device[of "ex_poll ''ghost'' ''0123456789abcdef'' None []" ex_state 9
      "Poll (ex_poll ''ghost'' ''0123456789abcdef'' None [])" "''tok''"]
  from t h1 have c1: "poll 9 (ex_poll ''ghost'' ''0123456789abcdef'' None []) ex_state
      = (Inl Unauthorized, ex_state)"
    by (simp add: ex_poll_def truthy_def)
  from t h2 ids have c2:
    "device_ids (step ''tok'' 9 (Poll (ex_poll ''ghost'' ''0123456789abcdef'' None [])) ex_state)
       = [''dev-1'']"
    by simp
  from h1 c1 h2 c2 show ?thesis by (simp add: ex_poll_def)
qed

section \<open>Enqueueing a command\<close>

lemma enqueue_invalid:
  "\<not> truthy kind \<or> js_typeof payload \<noteq> ''object''
   \<Longrightarrow> enqueue now newid i kind payload st = (Inl InvalidArgument, st)"
  by (simp add: enqueue_def)

lemma enqueue_unknown_device:
  "truthy kind \<Longrightarrow> payload = JObj kvs \<Longrightarrow> i \<notin> set (device_ids st)
   \<Longrightarrow> enqueue now newid i kind payload st = (Inl ServerError, st)"
  by (simp add: enqueue_def device_ids_def)

lemma enqueue_ok:
  "truthy kind \<Longrightarrow> payload = JObj kvs \<Longrightarrow> i \<in> set (device_ids st)
   \<Longrightarrow> newid \<notin> set (command_ids st)
   \<Longrightarrow> enqueue now newid i kind payload st
         = (Inr (), st\<lparr>commands := commands st @ [new_command now newid i kind payload]\<rparr>)"
  by (simp add: enqueue_def device_ids_def command_ids_def)

lemma enqueue_never_not_found: "fst (enqueue now newid i kind payload st) \<noteq> Inl NotFound"
  by (simp add: enqueue_def)

lemma new_command_fields:
  "c_status (new_command now newid i kind payload) = Queued
   \<and> c_created_at (new_command now newid i kind payload) = now
   \<and> c_id (new_command now newid i kind payload) = newid
   \<and> c_device_id (new_command now newid i kind payload) = i
   \<and> c_kind (new_command now newid i kind payload) = kind
   \<and> c_payload (new_command now newid i kind payload) = payload
   \<and> c_sent_at (new_command now newid i kind payload) = None
   \<and> c_done_at (new_command now newid i kind payload) = None
   \<and> c_error (new_command now newid i kind payload) = None"
  by (simp add: new_command_def)

text \<open>
  C7 as stated fails for a device id that references no device: the handler never looks
  the device up, the insert is rejected by the foreign key, and the \<open>catch\<close> answers 500
  (ServerError), not NotFound. No command row is created.
\<close>

theorem enqueue_unknown_device_counterexample:
  "''ghost'' \<notin> set (device_ids ex_state)
   \<and> enqueue 9 11 ''ghost'' ''ping'' (JObj []) ex_state = (Inl ServerError, ex_state)
   \<and> http_status ServerError = 500"
  by (simp add: enqueue_def device_ids_def ex_state_def ex_device_def ex_command_def truthy_def)

text \<open>
  C7, amended. Enqueueing fails with InvalidArgument when \<open>kind\<close> is empty or
  \<open>typeof payload\<close> is not \<open>object\<close>. With a non-empty kind and an object payload it
  fails with ServerError, creating no command row, when the device id references no
  existing device, and it never answers NotFound. With an existing device (and a fresh
  id from the generator) it appends one command with status queued, \<open>created_at\<close> the
  current time and the kind and payload of the request, and changes nothing else.
\<close>

theorem enqueue_outcomes:
  "(\<not> truthy kind \<or> js_typeof payload \<noteq> ''object''
      \<longrightarrow> enqueue now newid i kind payload st = (Inl InvalidArgument, st))
   \<and> (truthy kind \<and> payload = JObj kvs \<and> i \<notin> set (device_ids st)
      \<longrightarrow> enqueue now newid i kind payload st = (Inl ServerError, st))
   \<and> (truthy kind \<and> payload = JObj kvs \<and> i \<in> set (device_ids st) \<and> newid \<notin> set (command_ids st)
      \<longrightarrow> enqueue now newid i kind payload st
            = (Inr (), st\<lparr>commands := commands st @ [new_command now newid i kind payload]\<rparr>)
          \<and> c_status (new_command now newid i kind payload) = Queued
          \<and> c_created_at (new_command now newid i kind payload) = now
          \<and> c_device_id (new_command now newid i kind payload) = i
          \<and> c_kind (new_command now newid i kind payload) = kind
          \<and> c_payload (new_command now newid i kind payload) = payload)
   \<and> fst (enqueue now newid i kind payload st) \<noteq> Inl NotFound"
  using enqueue_invalid[of kind payload now newid i st]
    enqueue_unknown_device[of kind payload kvs i st now newid]
    enqueue_ok[of kind payload kvs i st newid now]
    enqueue_never_not_found[of now newid i kind payload st]
    new_command_fields[of now newid i kind payload]
  by blast

theorem enqueue_outcomes_witness:
  "truthy ''ping'' \<and> ''dev-1'' \<in> set (device_ids ex_state) \<and> 11 \<notin> set (command_ids ex_state)
   \<and> enqueue 9 11 ''dev-1'' ''ping'' (JObj []) ex_state
       = (Inr (), ex_state\<lparr>commands := commands ex_state @ [ex_command 11 ''dev-1'' ''ping'' Queued 9]\<rparr>)
   \<and> ''ghost'' \<notin> set (device_ids ex_state)
   \<and> enqueue 9 11 ''ghost'' ''ping'' (JObj []) ex_state = (Inl ServerError, ex_state)
   \<and> js_typeof (JStr ''x'') \<noteq> ''object''
   \<and> enqueue 9 11 ''dev-1'' ''ping'' (JStr ''x'') ex_state = (Inl InvalidArgument, ex_state)"
proof -
  have h1: "truthy ''ping''" by (simp add: truthy_def)
  have h2: "''dev-1'' \<in> set (device_ids ex_state)"
    by (simp add: device_ids_def ex_state_def ex_device_def)
  have h3: "11 \<notin> set (command_ids ex_state)"
    by (simp add: command_ids_def ex_state_def ex_command_def)
  have h4: "''ghost'' \<notin> set (device_ids ex_state)"
    by (simp add: device_ids_def ex_state_def ex_device_def)
  have h5: "js_typeof (JStr ''x'') \<noteq> ''object''" by simp
  have n: "new_command 9 11 ''dev-1'' ''ping'' (JObj []) = ex_command 11 ''dev-1'' ''ping'' Queued 9"
    by (simp add: new_command_def ex_command_def)
  from enqueue_outcomes[of "''ping''" "JObj []" 9 11 "''dev-1''" ex_state "[]"] h1 h2 h3 n
  have c1: "enqueue 9 11 ''dev-1'' ''ping'' (JObj []) ex_state
       = (Inr (), ex_state\<lparr>commands := commands ex_state @ [ex_command 11 ''dev-1'' ''ping'' Queued 9]\<rparr>)"
    by simp
  from enqueue_outcomes[of "''ping''" "JObj []" 9 11 "''ghost''" ex_state "[]"] h1 h4
  have c2: "enqueue 9 11 ''ghost'' ''ping'' (JObj []) ex_state = (Inl ServerError, ex_state)"
    by simp
  from enqueue_outcomes[of "''ping''" "JStr ''x''" 9 11 "''dev-1''" ex_state "[]"] h5
  have c3: "enqueue 9 11 ''dev-1'' ''ping'' (JStr ''x'') ex_state = (Inl InvalidArgument, ex_state)"
    by blast
  from h1 h2 h3 c1 h4 c2 h5 c3 show ?thesis by (intro conjI)
qed

section \<open>Who passes admin authentication\<close>

lemma adminAuth_part003_cases:
  "(\<not> truthy tok \<longrightarrow> adminAuth_part003 tok hdr = Inl ServiceUnavailable)
   \<and> (truthy tok \<and> hdr \<noteq> ''Bearer '' @ tok \<longrightarrow> adminAuth_part003 tok hdr = Inl Unauthorized)
   \<and> (adminAuth_part003 tok hdr = Inr () \<longleftrightarrow> truthy tok \<and> hdr = ''Bearer '' @ tok)"
  by (simp add: adminAuth_part003_def)

lemma adminAuth_part001_cases:
  "(\<not> truthy tok \<longrightarrow> adminAuth_part001 tok hdr = Inr ())
   \<and> (truthy tok \<and> trim (strip_bearer hdr) \<noteq> tok \<longrightarrow> adminAuth_part001 tok hdr = Inl Unauthorized)
   \<and> (adminAuth_part001 tok hdr = Inr () \<longleftrightarrow> \<not> truthy tok \<or> trim (strip_bearer hdr) = tok)
   \<and> adminAuth_part001 tok hdr \<noteq> Inl ServiceUnavailable"
  by (simp add: adminAuth_part001_def Let_def)

lemma admin_step_denied:
  "adminAuth_part001 tok hdr = Inl err
   \<Longrightarrow> step tok now (AdminEnqueue hdr newid i kind payload) st = st
       \<and> step tok now (AdminSetStatus hdr i status) st = st"
  by simp

text \<open>
  C8 as stated fails for the server that owns the command queue: its \<open>adminAuth\<close> calls
  \<open>next()\<close> whenever no admin token is configured. With \<open>ADMIN_TOKEN\<close> unset, a request
  with no \<open>Authorization\<close> header is let through, and the enqueue behind it adds its
  command.
\<close>

theorem adminAuth_open_without_token_counterexample:
  "adminAuth_part001 [] [] = Inr ()
   \<and> commands (step [] 9 (AdminEnqueue [] 11 ''dev-1'' ''ping'' (JObj [])) ex_state)
       = commands ex_state @ [ex_command 11 ''dev-1'' ''ping'' Queued 9]"
  by (simp add: adminAuth_part001_def trim_def strip_bearer_def truthy_def enqueue_def
      new_command_def ex_state_def ex_device_def ex_command_def)

text \<open>
  C8, amended. The admin endpoints of the older server compare the whole
  \<open>Authorization\<close> header with \<open>Bearer \<close> followed by the configured token: they answer
  ServiceUnavailable when no token is configured, Unauthorized on a mismatch, and grant
  access in neither case. The admin endpoints of the server with the command queue
  strip the \<open>Bearer\<close> prefix and surrounding blanks (the no-break space among them) and
  answer Unauthorized when a token
  is configured and the presented one differs, leaving the state untouched; when no
  token is configured they grant access to every request and never answer
  ServiceUnavailable.
\<close>

theorem adminAuth_outcomes:
  "(\<not> truthy tok \<longrightarrow> adminAuth_part003 tok hdr = Inl ServiceUnavailable)
   \<and> (truthy tok \<and> hdr \<noteq> ''Bearer '' @ tok \<longrightarrow> adminAuth_part003 tok hdr = Inl Unauthorized)
   \<and> (adminAuth_part003 tok hdr = Inr () \<longleftrightarrow> truthy tok \<and> hdr = ''Bearer '' @ tok)
   \<and> (\<not> truthy tok \<longrightarrow> adminAuth_part001 tok hdr = Inr ())
   \<and> (truthy tok \<and> trim (strip_bearer hdr) \<noteq> tok \<longrightarrow> adminAuth_part001 tok hdr = Inl Unauthorized)
   \<and> (adminAuth_part001 tok hdr = Inr () \<longleftrightarrow> \<not> truthy tok \<or> trim (strip_bearer hdr) = tok)
   \<and> adminAuth_part001 tok hdr \<noteq> Inl ServiceUnavailable
   \<and> (adminAuth_part001 tok hdr = Inl err
        \<longrightarrow> step tok now (AdminEnqueue hdr newid i kind payload) st = st
            \<and> step tok now (AdminSetStatus hdr i status) st = st)"
  using adminAuth_part003_cases[of tok hdr] adminAuth_part001_cases[of tok hdr]
    admin_step_denied[of tok hdr err now newid i kind payload st status]
  by blast

theorem adminAuth_outcomes_witness:
  "\<not> truthy [] \<and> adminAuth_part003 [] ''Bearer tok'' = Inl ServiceUnavailable
   \<and> truthy ''tok'' \<and> ''Bearer nope'' \<noteq> ''Bearer '' @ ''tok''
   \<and> adminAuth_part003 ''tok'' ''Bearer nope'' = Inl Unauthorized
   \<and> trim (strip_bearer ''Bearer nope'') \<noteq> ''tok''
   \<and> adminAuth_part001 ''tok'' ''Bearer nope'' = Inl Unauthorized
   \<and> step ''tok'' 9 (AdminEnqueue ''Bearer nope'' 11 ''dev-1'' ''ping'' (JObj [])) ex_state = ex_state
   \<and> trim (strip_bearer ''bearer   tok '') = ''tok''
   \<and> adminAuth_part001 ''tok'' ''bearer   tok '' = Inr ()
   \<and> trim (strip_bearer (''Bearer'' @ [CHR 0xA0] @ ''tok'')) = ''tok''
   \<and> adminAuth_part001 ''tok'' (''Bearer'' @ [CHR 0xA0] @ ''tok'') = Inr ()"
proof -
  have h1: "\<not> truthy []" by (simp add: truthy_def)
  have h2: "truthy ''tok''" by (simp add: truthy_def)
  have h3: "''Bearer nope'' \<noteq> ''Bearer '' @ ''tok''" by simp
  have h4: "trim (strip_bearer ''Bearer nope'') \<noteq> ''tok''"
    by (simp add: trim_def strip_bearer_def is_space_def)
  have h5: "trim (strip_bearer ''bearer   tok '') = ''tok''"
    by (simp add: trim_def strip_bearer_def is_space_def)
  from adminAuth_outcomes[of "[]" "''Bearer tok''"] h1
  have c1: "adminAuth_part003 [] ''Bearer tok'' = Inl ServiceUnavailable" by blast
  note t = adminAuth_outcomes[of "''tok''" "''Bearer nope''" Unauthorized 9 11 "''dev-1''" "''ping''"
      "JObj []" ex_state]
  from t h2 h3 have c2: "adminAuth_part003 ''tok'' ''Bearer nope'' = Inl Unauthorized" by blast
  from t h2 h4 have c3: "adminAuth_part001 ''tok'' ''Bearer nope'' = Inl Unauthorized" by blast
  from t c3 have c4:
    "step ''tok'' 9 (AdminEnqueue ''Bearer nope'' 11 ''dev-1'' ''ping'' (JObj [])) ex_state = ex_state"
    by blast
  from adminAuth_outcomes[of "''tok''" "''bearer   tok ''"] h5
  have c5: "adminAuth_part001 ''tok'' ''bearer   tok '' = Inr ()" by blast
  have h6: "trim (strip_bearer (''Bearer'' @ [CHR 0xA0] @ ''tok'')) = ''tok''"
    by (simp add: trim_def strip_bearer_def is_space_def)
  from adminAuth_outcomes[of "''tok''" "''Bearer'' @ [CHR 0xA0] @ ''tok''"] h6
  have c6: "adminAuth_part001 ''tok'' (''Bearer'' @ [CHR 0xA0] @ ''tok'') = Inr ()" by blast
  from h1 c1 h2 h3 c2 h4 c3 c4 h5 c5 h6 c6 show ?thesis by (intro conjI)
qed

section \<open>Taking the next batch\<close>

lemma clamp_max_range:
  "clamp_max m = nat (min (max m 1) 20) \<and> 1 \<le> clamp_max m \<and> clamp_max m \<le> 20"
  by (auto simp: clamp_max_def min_def max_def)

lemma select_queued_batch: "select_queued d n cmds = map c_id (batch d n cmds)"
  by (simp add: select_queued_def batch_def queued_of_def)

lemma batch_subset: "set (batch d n cmds) \<subseteq> set (queued_of d cmds)"
proof
  fix c assume "c \<in> set (batch d n cmds)"
  then have "c \<in> set (sort_key c_created_at (queued_of d cmds))"
    unfolding batch_def by (rule in_set_takeD)
  then show "c \<in> set (queued_of d cmds)" by simp
qed

lemma queued_of_subset: "set (queued_of d cmds) \<subseteq> set cmds"
  by (auto simp: queued_of_def)

lemma length_batch: "length (batch d n cmds) = min n (length (queued_of d cmds))"
  by (simp add: batch_def min.commute)

lemma distinct_batch:
  assumes "distinct (map c_id cmds)"
  shows "distinct (batch d n cmds)"
proof -
  from assms have "distinct cmds" by (simp add: distinct_map)
  then have "distinct (queued_of d cmds)" by (simp add: queued_of_def)
  then show ?thesis by (simp add: batch_def)
qed

lemma id_in_batch:
  assumes dist: "distinct (map c_id cmds)" and c: "c \<in> set cmds"
  shows "c_id c \<in> c_id ` set (batch d n cmds) \<longleftrightarrow> c \<in> set (batch d n cmds)"
proof
  assume "c_id c \<in> c_id ` set (batch d n cmds)"
  then obtain b where b: "b \<in> set (batch d n cmds)" and eq: "c_id c = c_id b" by blast
  from b batch_subset queued_of_subset have "b \<in> set cmds" by blast
  moreover from dist have "inj_on c_id (set cmds)" by (simp add: distinct_map)
  ultimately have "c = b" using c eq by (auto dest: inj_onD)
  with b show "c \<in> set (batch d n cmds)" by simp
next
  assume "c \<in> set (batch d n cmds)"
  then show "c_id c \<in> c_id ` set (batch d n cmds)" by (rule imageI)
qed

lemma filter_batch_set:
  assumes "distinct (map c_id cmds)"
  shows "set (filter (\<lambda>c. c_id c \<in> c_id ` set (batch d n cmds)) cmds) = set (batch d n cmds)"
proof -
  have sub: "set (batch d n cmds) \<subseteq> set cmds" using batch_subset queued_of_subset by blast
  show ?thesis
  proof (intro equalityI subsetI)
    fix c assume "c \<in> set (filter (\<lambda>c. c_id c \<in> c_id ` set (batch d n cmds)) cmds)"
    then have "c \<in> set cmds" and "c_id c \<in> c_id ` set (batch d n cmds)" by simp_all
    with id_in_batch[OF assms] show "c \<in> set (batch d n cmds)" by blast
  next
    fix c assume b: "c \<in> set (batch d n cmds)"
    with sub have "c \<in> set cmds" by blast
    moreover from b have "c_id c \<in> c_id ` set (batch d n cmds)" by (rule imageI)
    ultimately show "c \<in> set (filter (\<lambda>c. c_id c \<in> c_id ` set (batch d n cmds)) cmds)"
      by simp
  qed
qed

lemma rows_eq:
  "fst (takeNextBatch now d m cmds)
     = map (\<lambda>c. (c_id c, c_kind c, c_payload c))
         (filter (\<lambda>c. c_id c \<in> c_id ` set (batch d (clamp_max m) cmds)) cmds)"
  by (simp add: takeNextBatch_def Let_def select_queued_batch)

lemma table_eq:
  "snd (takeNextBatch now d m cmds)
     = map (\<lambda>c. if c_id c \<in> c_id ` set (batch d (clamp_max m) cmds) then mark_sent now c else c) cmds"
  by (simp add: takeNextBatch_def Let_def select_queued_batch mark_sent_def)

lemma row_ids:
  assumes "distinct (map c_id cmds)"
  shows "fst ` set (fst (takeNextBatch now d m cmds)) = c_id ` set (batch d (clamp_max m) cmds)"
proof -
  have "fst ` set (fst (takeNextBatch now d m cmds))
          = c_id ` set (filter (\<lambda>c. c_id c \<in> c_id ` set (batch d (clamp_max m) cmds)) cmds)"
    by (simp add: rows_eq image_image)
  also have "\<dots> = c_id ` set (batch d (clamp_max m) cmds)"
    by (simp only: filter_batch_set[OF assms])
  finally show ?thesis .
qed

lemma length_rows:
  assumes "distinct (map c_id cmds)"
  shows "length (fst (takeNextBatch now d m cmds)) = min (clamp_max m) (length (queued_of d cmds))"
proof -
  let ?P = "\<lambda>c. c_id c \<in> c_id ` set (batch d (clamp_max m) cmds)"
  from assms have dc: "distinct cmds" by (simp add: distinct_map)
  then have "distinct (filter ?P cmds)" by simp
  then have "length (filter ?P cmds) = card (set (filter ?P cmds))"
    by (rule distinct_card[symmetric])
  also have "\<dots> = card (set (batch d (clamp_max m) cmds))"
    by (simp only: filter_batch_set[OF assms])
  also have "\<dots> = length (batch d (clamp_max m) cmds)"
    using distinct_batch[OF assms] by (rule distinct_card)
  finally show ?thesis by (simp add: rows_eq length_batch)
qed

lemma distinct_row_ids:
  assumes "distinct (map c_id cmds)"
  shows "distinct (map fst (fst (takeNextBatch now d m cmds)))"
proof -
  have "map fst (fst (takeNextBatch now d m cmds))
          = map c_id (filter (\<lambda>c. c_id c \<in> c_id ` set (batch d (clamp_max m) cmds)) cmds)"
    by (simp add: rows_eq comp_def)
  also have "\<dots> = filter (\<lambda>i. i \<in> c_id ` set (batch d (clamp_max m) cmds)) (map c_id cmds)"
    by (simp add: filter_map comp_def)
  finally show ?thesis using assms by simp
qed

lemma batch_member_queued:
  assumes "c \<in> set (batch d n cmds)"
  shows "c \<in> set cmds \<and> c_device_id c = d \<and> c_status c = Queued"
proof -
  from assms batch_subset have "c \<in> set (queued_of d cmds)" by blast
  then show ?thesis by (simp add: queued_of_def)
qed

lemma rows_from_queue:
  assumes dist: "distinct (map c_id cmds)"
    and x: "x \<in> set (fst (takeNextBatch now d m cmds))"
  shows "\<exists>c\<in>set cmds. c_device_id c = d \<and> c_status c = Queued
                       \<and> x = (c_id c, c_kind c, c_payload c)"
proof -
  from x obtain c where c: "c \<in> set cmds"
    and sel: "c_id c \<in> c_id ` set (batch d (clamp_max m) cmds)"
    and xc: "x = (c_id c, c_kind c, c_payload c)"
    by (auto simp: rows_eq)
  from sel id_in_batch[OF dist c] have "c \<in> set (batch d (clamp_max m) cmds)" by blast
  from batch_member_queued[OF this] xc show ?thesis by blast
qed

lemma batch_earliest:
  assumes b: "c \<in> set (batch d n cmds)"
    and q: "c' \<in> set (queued_of d cmds)" and nb: "c' \<notin> set (batch d n cmds)"
  shows "c_created_at c \<le> c_created_at c'"
proof -
  let ?s = "sort_key c_created_at (queued_of d cmds)"
  have "sorted (map c_created_at (take n ?s @ drop n ?s))" by simp
  then have le: "\<forall>x\<in>set (take n ?s). \<forall>y\<in>set (drop n ?s). c_created_at x \<le> c_created_at y"
    unfolding map_append sorted_append by auto
  from q have "c' \<in> set (take n ?s @ drop n ?s)" by simp
  with nb have "c' \<in> set (drop n ?s)" unfolding batch_def set_append by blast
  with b le show ?thesis unfolding batch_def by blast
qed

lemma rows_earliest:
  assumes dist: "distinct (map c_id cmds)"
    and c: "c \<in> set cmds" "c_id c \<in> fst ` set (fst (takeNextBatch now d m cmds))"
    and c': "c' \<in> set cmds" "c_device_id c' = d" "c_status c' = Queued"
      "c_id c' \<notin> fst ` set (fst (takeNextBatch now d m cmds))"
  shows "c_created_at c \<le> c_created_at c'"
proof -
  from c id_in_batch[OF dist c(1)] have b: "c \<in> set (batch d (clamp_max m) cmds)"
    by (simp add: row_ids[OF dist])
  from c' id_in_batch[OF dist c'(1)] have nb: "c' \<notin> set (batch d (clamp_max m) cmds)"
    by (simp add: row_ids[OF dist])
  from c' have "c' \<in> set (queued_of d cmds)" by (simp add: queued_of_def)
  from batch_earliest[OF b this nb] show ?thesis .
qed

lemma table_after:
  assumes dist: "distinct (map c_id cmds)" and k: "k < length cmds"
  shows "snd (takeNextBatch now d m cmds) ! k
           = (if c_id (cmds ! k) \<in> fst ` set (fst (takeNextBatch now d m cmds))
              then mark_sent now (cmds ! k) else cmds ! k)"
  using k by (simp add: table_eq row_ids[OF dist])

lemma other_devices_untouched:
  assumes dist: "distinct (map c_id cmds)" and k: "k < length cmds"
    and o: "c_device_id (cmds ! k) \<noteq> d"
  shows "snd (takeNextBatch now d m cmds) ! k = cmds ! k"
proof -
  from k have mem: "cmds ! k \<in> set cmds" by simp
  have "cmds ! k \<notin> set (batch d (clamp_max m) cmds)"
    using batch_member_queued o by blast
  with id_in_batch[OF dist mem]
  have "c_id (cmds ! k) \<notin> c_id ` set (batch d (clamp_max m) cmds)" by blast
  with k show ?thesis by (simp add: table_eq)
qed

lemma length_table: "length (snd (takeNextBatch now d m cmds)) = length cmds"
  by (simp add: table_eq)

text \<open>
  C6 as stated fails on the tie-break: the inner \<open>SELECT\<close> orders by \<open>created_at\<close> only,
  and the id is a random UUID, not a sequence number. Two queued commands of one device
  created at the same time, the first inserted with the larger id: a batch of one takes
  the first row of the table, not the row with the smaller id.
\<close>

theorem takeNextBatch_tie_counterexample:
  "c_created_at (ex_command 7 ''dev-1'' ''ping'' Queued 3)
     = c_created_at (ex_command 3 ''dev-1'' ''update'' Queued 3)
   \<and> (3::nat) < 7
   \<and> fst (takeNextBatch 9 ''dev-1'' 1
            [ex_command 7 ''dev-1'' ''ping'' Queued 3, ex_command 3 ''dev-1'' ''update'' Queued 3])
       = [(7, ''ping'', JObj [])]"
  by (simp add: takeNextBatch_def select_queued_def clamp_max_def ex_command_def)

text \<open>
  C6, amended. On a table whose command ids are unique (they are the primary key, and
  every state of a run keeps them so), the dispatch step returns
  exactly \<open>min (min (max maxCount 1) 20) q\<close> commands, where \<open>q\<close> is the number of queued
  commands of the device, hence at most the requested count clamped to the range from
  1 to 20. Every returned command is a queued command of the device, and it was created
  no later than any queued command of the device that is not returned; the query names
  no tie-break among commands created at the same time. Every returned command, and no
  other, has its status set to sent and \<open>sent_at\<close> set to the current time; commands
  of other devices are left as they were.
\<close>

theorem takeNextBatch_earliest_queued:
  assumes "distinct (map c_id cmds)"
  shows "length (fst (takeNextBatch now d m cmds))
           = min (nat (min (max m 1) 20)) (length (queued_of d cmds))
         \<and> distinct (map fst (fst (takeNextBatch now d m cmds)))
         \<and> (\<forall>x\<in>set (fst (takeNextBatch now d m cmds)).
               \<exists>c\<in>set cmds. c_device_id c = d \<and> c_status c = Queued
                              \<and> x = (c_id c, c_kind c, c_payload c))
         \<and> (\<forall>c\<in>set cmds. \<forall>c'\<in>set cmds.
               c_id c \<in> fst ` set (fst (takeNextBatch now d m cmds))
               \<and> c_device_id c' = d \<and> c_status c' = Queued
               \<and> c_id c' \<notin> fst ` set (fst (takeNextBatch now d m cmds))
               \<longrightarrow> c_created_at c \<le> c_created_at c')
         \<and> length (snd (takeNextBatch now d m cmds)) = length cmds
         \<and> (\<forall>k<length cmds.
               snd (takeNextBatch now d m cmds) ! k
                 = (if c_id (cmds ! k) \<in> fst ` set (fst (takeNextBatch now d m cmds))
                    then mark_sent now (cmds ! k) else cmds ! k))
         \<and> (\<forall>k<length cmds. c_device_id (cmds ! k) \<noteq> d
               \<longrightarrow> snd (takeNextBatch now d m cmds) ! k = cmds ! k)"
proof (intro conjI)
  show "length (fst (takeNextBatch now d m cmds))
           = min (nat (min (max m 1) 20)) (length (queued_of d cmds))"
    using length_rows[OF assms, of now d m] clamp_max_range[of m] by simp
  show "distinct (map fst (fst (takeNextBatch now d m cmds)))"
    using assms by (rule distinct_row_ids)
  show "\<forall>x\<in>set (fst (takeNextBatch now d m cmds)).
               \<exists>c\<in>set cmds. c_device_id c = d \<and> c_status c = Queued
                              \<and> x = (c_id c, c_kind c, c_payload c)"
    using rows_from_queue[OF assms] by blast
  show "\<forall>c\<in>set cmds. \<forall>c'\<in>set cmds.
               c_id c \<in> fst ` set (fst (takeNextBatch now d m cmds))
               \<and> c_device_id c' = d \<and> c_status c' = Queued
               \<and> c_id c' \<notin> fst ` set (fst (takeNextBatch now d m cmds))
               \<longrightarrow> c_created_at c \<le> c_created_at c'"
    using rows_earliest[OF assms] by blast
  show "length (snd (takeNextBatch now d m cmds)) = length cmds"
    by (rule length_table)
  show "\<forall>k<length cmds.
               snd (takeNextBatch now d m cmds) ! k
                 = (if c_id (cmds ! k) \<in> fst ` set (fst (takeNextBatch now d m cmds))
                    then mark_sent now (cmds ! k) else cmds ! k)"
    using table_after[OF assms] by blast
  show "\<forall>k<length cmds. c_device_id (cmds ! k) \<noteq> d
               \<longrightarrow> snd (takeNextBatch now d m cmds) ! k = cmds ! k"
    using other_devices_untouched[OF assms] by blast
qed

theorem takeNextBatch_earliest_queued_witness:
  "distinct (map c_id ex_queue)
   \<and> fst (takeNextBatch 9 ''dev-1'' 1 ex_queue) = [(7, ''ping'', JObj [])]
   \<and> length (fst (takeNextBatch 9 ''dev-1'' 1 ex_queue)) = 1
   \<and> snd (takeNextBatch 9 ''dev-1'' 1 ex_queue) ! 0 = mark_sent 9 (ex_queue ! 0)
   \<and> snd (takeNextBatch 9 ''dev-1'' 1 ex_queue) ! 1 = ex_queue ! 1
   \<and> snd (takeNextBatch 9 ''dev-1'' 1 ex_queue) ! 2 = ex_queue ! 2"
proof -
  have h: "distinct (map c_id ex_queue)"
    by (simp add: ex_queue_def ex_command_def)
  have rows: "fst (takeNextBatch 9 ''dev-1'' 1 ex_queue) = [(7, ''ping'', JObj [])]"
    by (simp add: takeNextBatch_def select_queued_def clamp_max_def ex_queue_def ex_command_def)
  have q: "length (queued_of ''dev-1'' ex_queue) = 2"
    by (simp add: queued_of_def ex_queue_def ex_command_def)
  have k0: "(0::nat) < length ex_queue \<and> c_id (ex_queue ! 0) \<in> fst ` set [(7::nat, ''ping'', JObj [])]"
    by (simp add: ex_queue_def ex_command_def)
  have k1: "(1::nat) < length ex_queue \<and> c_id (ex_queue ! 1) \<notin> fst ` set [(7::nat, ''ping'', JObj [])]"
    by (simp add: ex_queue_def ex_command_def)
  have k2: "(2::nat) < length ex_queue \<and> c_device_id (ex_queue ! 2) \<noteq> ''dev-1''"
    by (simp add: ex_queue_def ex_command_def)
  note t = takeNextBatch_earliest_queued[OF h, of 9 "''dev-1''" 1, unfolded rows]
  from t q have c1: "length (fst (takeNextBatch 9 ''dev-1'' 1 ex_queue)) = 1"
    by (simp add: rows)
  from t k0 have c2: "snd (takeNextBatch 9 ''dev-1'' 1 ex_queue) ! 0 = mark_sent 9 (ex_queue ! 0)"
    by presburger
  from t k1 have c3: "snd (takeNextBatch 9 ''dev-1'' 1 ex_queue) ! 1 = ex_queue ! 1"
    by presburger
  from t k2 have c4: "snd (takeNextBatch 9 ''dev-1'' 1 ex_queue) ! 2 = ex_queue ! 2"
    by blast
  from h rows c1 c2 c3 c4 show ?thesis by (intro conjI)
qed

text \<open>
  The scenario of the two commands: \<open>ping\<close> and \<open>update\<close> are enqueued for \<open>dev-1\<close> in
  that order; a poll for one command returns the first and marks it sent, a second
  poll for five returns the other.
\<close>

lemma poll_two_commands_scenario:
  "fst (poll 5 (ex_poll ''dev-1'' ''secret-0001'' (Some 1) [])
         \<lparr>devices = [ex_device ''dev-1'' (Some ''secret-0001'')],
          commands = [ex_command 7 ''dev-1'' ''ping'' Queued 3,
                      ex_command 8 ''dev-1'' ''update'' Queued 4]\<rparr>)
     = Inr [(7, ''ping'', JObj [])]
   \<and> fst (poll 6 (ex_poll ''dev-1'' ''secret-0001'' (Some 5) [])
         (snd (poll 5 (ex_poll ''dev-1'' ''secret-0001'' (Some 1) [])
           \<lparr>devices = [ex_device ''dev-1'' (Some ''secret-0001'')],
            commands = [ex_command 7 ''dev-1'' ''ping'' Queued 3,
                        ex_command 8 ''dev-1'' ''update'' Queued 4]\<rparr>)))
     = Inr [(8, ''update'', JObj [])]"
  by (simp add: poll_def ex_poll_def ex_device_def ex_command_def findDeviceForAuth_def
      truthy_def truthy_opt_def takeNextBatch_def select_queued_def clamp_max_def)

section \<open>The status of a command over a run\<close>

lemma advances_refl: "advances c c"
  by (simp add: advances_def)

lemma advances_trans: "advances a b \<Longrightarrow> advances b c \<Longrightarrow> advances a c"
  by (simp add: advances_def)

lemma all2_advances_map:
  assumes "\<And>c. c \<in> set cs \<Longrightarrow> advances c (f c)"
  shows "list_all2 advances cs (map f cs)"
  using assms by (simp add: list_all2_map2 list_all2_same)

lemma all2_advances_trans:
  "list_all2 advances xs ys \<Longrightarrow> list_all2 advances ys zs \<Longrightarrow> list_all2 advances xs zs"
  using advances_trans by (rule list_all2_trans)

lemma all2_advances_ids: "list_all2 advances cs cs' \<Longrightarrow> map c_id cs' = map c_id cs"
  by (induction rule: list_all2_induct) (simp_all add: advances_def)

lemma recordResult_advances: "list_all2 advances cmds (recordResult now i d ok err cmds)"
  unfolding recordResult_def
proof (rule all2_advances_map)
  fix c
  show "advances c (if c_id c = i \<and> c_device_id c = d
                    then c\<lparr>c_status := (if ok then Done else Failed), c_done_at := Some now,
                           c_error := error_text ok err\<rparr> else c)"
    by (cases "c_status c") (simp_all add: advances_def)
qed

lemma recordResults_advances: "list_all2 advances cmds (recordResults now d rs cmds)"
proof (induction rs arbitrary: cmds)
  case Nil
  show ?case by (simp add: list_all2_same advances_refl)
next
  case (Cons r rs)
  show ?case
  proof (cases r)
    case None
    with Cons show ?thesis by simp
  next
    case (Some e)
    show ?thesis
    proof (cases "r_id e")
      case None
      with \<open>r = Some e\<close> Cons show ?thesis by simp
    next
      case (Some i)
      have "list_all2 advances cmds (recordResult now i d (r_ok e) (r_error e) cmds)"
        by (rule recordResult_advances)
      from all2_advances_trans[OF this Cons.IH] show ?thesis
        using \<open>r = Some e\<close> Some by simp
    qed
  qed
qed

lemma takeNextBatch_advances:
  assumes dist: "distinct (map c_id cmds)"
  shows "list_all2 advances cmds (snd (takeNextBatch now d m cmds))"
  unfolding table_eq
proof (rule all2_advances_map)
  fix c assume c: "c \<in> set cmds"
  show "advances c (if c_id c \<in> c_id ` set (batch d (clamp_max m) cmds)
                    then mark_sent now c else c)"
  proof (cases "c_id c \<in> c_id ` set (batch d (clamp_max m) cmds)")
    case True
    with id_in_batch[OF dist c] have "c \<in> set (batch d (clamp_max m) cmds)" by blast
    from batch_member_queued[OF this] have "c_status c = Queued" by blast
    with True show ?thesis by (simp add: advances_def mark_sent_def)
  next
    case False
    then show ?thesis by (simp add: advances_refl)
  qed
qed

lemma poll_commands:
  "commands (snd (poll now req st)) = commands st
   \<or> commands (snd (poll now req st))
        = snd (takeNextBatch now (p_deviceId req) (case p_max req of None \<Rightarrow> 5 | Some m \<Rightarrow> m)
                 (recordResults now (p_deviceId req) (p_results req) (commands st)))"
proof -
  obtain r devs where f: "findDeviceForAuth (p_deviceId req) (p_deviceSecret req) (devices st) = (r, devs)"
    by (cases "findDeviceForAuth (p_deviceId req) (p_deviceSecret req) (devices st)")
  obtain rs cs where t: "takeNextBatch now (p_deviceId req)
                  (case p_max req of None \<Rightarrow> 5 | Some m \<Rightarrow> m)
                  (recordResults now (p_deviceId req) (p_results req) (commands st)) = (rs, cs)"
    by (cases "takeNextBatch now (p_deviceId req)
                  (case p_max req of None \<Rightarrow> 5 | Some m \<Rightarrow> m)
                  (recordResults now (p_deviceId req) (p_results req) (commands st))")
  from f t show ?thesis
    by (cases r) (simp_all add: poll_def Let_def)
qed

lemma poll_advances:
  assumes "distinct (command_ids st)"
  shows "list_all2 advances (commands st) (commands (snd (poll now req st)))"
proof -
  let ?cmds1 = "recordResults now (p_deviceId req) (p_results req) (commands st)"
  have a1: "list_all2 advances (commands st) ?cmds1" by (rule recordResults_advances)
  then have "map c_id ?cmds1 = map c_id (commands st)" by (rule all2_advances_ids)
  with assms have "distinct (map c_id ?cmds1)" by (simp add: command_ids_def)
  then have "list_all2 advances ?cmds1
      (snd (takeNextBatch now (p_deviceId req) (case p_max req of None \<Rightarrow> 5 | Some m \<Rightarrow> m) ?cmds1))"
    by (rule takeNextBatch_advances)
  with a1 have "list_all2 advances (commands st)
      (snd (takeNextBatch now (p_deviceId req) (case p_max req of None \<Rightarrow> 5 | Some m \<Rightarrow> m) ?cmds1))"
    by (rule all2_advances_trans)
  moreover have "list_all2 advances (commands st) (commands st)"
    by (simp add: list_all2_same advances_refl)
  ultimately show ?thesis using poll_commands[of now req st] by metis
qed

lemma enqueue_commands:
  "commands (snd (enqueue now newid i kind payload st)) = commands st
   \<or> (newid \<notin> set (command_ids st)
       \<and> commands (snd (enqueue now newid i kind payload st))
           = commands st @ [new_command now newid i kind payload])"
  by (simp add: enqueue_def command_ids_def)

lemma step_shape:
  assumes "distinct (command_ids st)"
  shows "list_all2 advances (commands st) (commands (step tok now e st))
         \<or> (\<exists>n. commands (step tok now e st) = commands st @ [n]
                \<and> c_status n = Queued \<and> c_id n \<notin> set (command_ids st))"
proof (cases e)
  case (Register req ip)
  then show ?thesis by (simp add: register_def list_all2_same advances_refl)
next
  case (Poll req)
  with poll_advances[OF assms] show ?thesis by simp
next
  case (AdminEnqueue hdr newid i kind payload)
  show ?thesis
  proof (cases "adminAuth_part001 tok hdr")
    case (Inl err)
    with AdminEnqueue show ?thesis by (simp add: list_all2_same advances_refl)
  next
    case (Inr u)
    from enqueue_commands[of now newid i kind payload st] show ?thesis
    proof
      assume "commands (snd (enqueue now newid i kind payload st)) = commands st"
      with AdminEnqueue Inr show ?thesis by (simp add: list_all2_same advances_refl)
    next
      assume "newid \<notin> set (command_ids st)
       \<and> commands (snd (enqueue now newid i kind payload st))
           = commands st @ [new_command now newid i kind payload]"
      with AdminEnqueue Inr show ?thesis by (simp add: new_command_def)
    qed
  qed
next
  case (AdminSetStatus hdr i status)
  then show ?thesis
    by (cases "adminAuth_part001 tok hdr") (simp_all add: set_status_def list_all2_same advances_refl)
qed

lemma step_distinct:
  assumes "distinct (command_ids st)"
  shows "distinct (command_ids (step tok now e st))"
  using step_shape[OF assms, of tok now e]
proof
  assume "list_all2 advances (commands st) (commands (step tok now e st))"
  then have "map c_id (commands (step tok now e st)) = map c_id (commands st)"
    by (rule all2_advances_ids)
  with assms show ?thesis by (simp add: command_ids_def)
next
  assume "\<exists>n. commands (step tok now e st) = commands st @ [n]
                \<and> c_status n = Queued \<and> c_id n \<notin> set (command_ids st)"
  with assms show ?thesis by (auto simp: command_ids_def)
qed

lemma states_distinct:
  "distinct (command_ids st) \<Longrightarrow> s \<in> set (states tok evs st) \<Longrightarrow> distinct (command_ids s)"
proof (induction evs arbitrary: st)
  case Nil
  then show ?case by simp
next
  case (Cons ev evs)
  obtain now e where ev: "ev = (now, e)" by (cases ev)
  from Cons.prems(2) have "s = st \<or> s \<in> set (states tok evs (step tok now e st))"
    by (simp add: ev)
  then show ?case
  proof
    assume "s = st"
    with Cons.prems(1) show ?thesis by simp
  next
    assume "s \<in> set (states tok evs (step tok now e st))"
    with Cons.IH[OF step_distinct[OF Cons.prems(1)]] show ?thesis by blast
  qed
qed

lemma status_of_short:
  "distinct (map c_id cs) \<Longrightarrow> length (filter (\<lambda>c. c_id c = cid) cs) \<le> 1"
proof (induction cs)
  case Nil
  show ?case by simp
next
  case (Cons c cs)
  show ?case
  proof (cases "c_id c = cid")
    case True
    with Cons.prems have "cid \<notin> c_id ` set cs" by auto
    then have "filter (\<lambda>c. c_id c = cid) cs = []" by (auto simp: filter_empty_conv)
    with True show ?thesis by simp
  next
    case False
    with Cons show ?thesis by simp
  qed
qed

lemma status_of_cases:
  assumes "distinct (command_ids st)"
  shows "status_of cid st = [] \<or> (\<exists>a. status_of cid st = [a])"
proof -
  from assms have "length (filter (\<lambda>c. c_id c = cid) (commands st)) \<le> 1"
    unfolding command_ids_def by (rule status_of_short)
  then have "length (status_of cid st) \<le> 1" by (simp add: status_of_def)
  then show ?thesis by (cases "status_of cid st") (auto simp: le_Suc_eq)
qed

lemma all2_advances_status:
  "list_all2 advances cs cs' \<Longrightarrow>
   list_all2 (\<lambda>a b. rank a \<le> rank b)
     (map c_status (filter (\<lambda>c. c_id c = cid) cs)) (map c_status (filter (\<lambda>c. c_id c = cid) cs'))"
  by (induction rule: list_all2_induct) (simp_all add: advances_def)

lemma step_status:
  assumes "distinct (command_ids st)"
  shows "(status_of cid st = []
            \<and> (status_of cid (step tok now e st) = [] \<or> status_of cid (step tok now e st) = [Queued]))
         \<or> (\<exists>a b. status_of cid st = [a] \<and> status_of cid (step tok now e st) = [b]
                   \<and> rank a \<le> rank b)"
  using step_shape[OF assms, of tok now e]
proof
  assume "list_all2 advances (commands st) (commands (step tok now e st))"
  then have r: "list_all2 (\<lambda>a b. rank a \<le> rank b) (status_of cid st) (status_of cid (step tok now e st))"
    unfolding status_of_def by (rule all2_advances_status)
  from status_of_cases[OF assms, of cid] show ?thesis
  proof
    assume "status_of cid st = []"
    with r show ?thesis by simp
  next
    assume "\<exists>a. status_of cid st = [a]"
    then obtain a where a: "status_of cid st = [a]" by blast
    with r obtain b where "status_of cid (step tok now e st) = [b]" "rank a \<le> rank b"
      by (auto simp: list_all2_Cons1)
    with a show ?thesis by blast
  qed
next
  assume "\<exists>n. commands (step tok now e st) = commands st @ [n]
                \<and> c_status n = Queued \<and> c_id n \<notin> set (command_ids st)"
  then obtain n where n: "commands (step tok now e st) = commands st @ [n]"
    "c_status n = Queued" "c_id n \<notin> set (command_ids st)" by blast
  show ?thesis
  proof (cases "c_id n = cid")
    case True
    with n(3) have "cid \<notin> c_id ` set (commands st)" by (simp add: command_ids_def)
    then have "filter (\<lambda>c. c_id c = cid) (commands st) = []" by (auto simp: filter_empty_conv)
    with True n show ?thesis by (simp add: status_of_def)
  next
    case False
    with n have same: "status_of cid (step tok now e st) = status_of cid st"
      by (simp add: status_of_def)
    from status_of_cases[OF assms, of cid] show ?thesis
    proof
      assume "status_of cid st = []"
      with same show ?thesis by simp
    next
      assume "\<exists>a. status_of cid st = [a]"
      with same show ?thesis by auto
    qed
  qed
qed

lemma trace_Nil: "trace tok [] st cid = status_of cid st"
  by (simp add: trace_def)

lemma trace_Cons:
  "trace tok ((now, e) # evs) st cid = status_of cid st @ trace tok evs (step tok now e st) cid"
  by (simp add: trace_def)

lemma trace_monotone:
  assumes "distinct (command_ids st)"
  shows "sorted (map rank (trace tok evs st cid))
         \<and> (status_of cid st = []
              \<longrightarrow> trace tok evs st cid = [] \<or> hd (trace tok evs st cid) = Queued)
         \<and> (\<forall>a. status_of cid st = [a]
              \<longrightarrow> trace tok evs st cid \<noteq> [] \<and> hd (trace tok evs st cid) = a)"
  using assms
proof (induction evs arbitrary: st)
  case Nil
  from status_of_cases[OF Nil, of cid] show ?case
    by (auto simp: trace_Nil)
next
  case (Cons ev evs)
  obtain now e where ev: "ev = (now, e)" by (cases ev)
  let ?s' = "step tok now e st"
  let ?t' = "trace tok evs ?s' cid"
  from Cons.prems have d': "distinct (command_ids ?s')" by (rule step_distinct)
  note ih = Cons.IH[OF d']
  from ih have srt: "sorted (map rank ?t')" by blast
  from step_status[OF Cons.prems, of cid tok now e] show ?case
  proof
    assume c: "status_of cid st = []
            \<and> (status_of cid ?s' = [] \<or> status_of cid ?s' = [Queued])"
    then have t: "trace tok (ev # evs) st cid = ?t'" by (simp add: ev trace_Cons)
    from c ih have "?t' = [] \<or> hd ?t' = Queued" by auto
    with c srt t show ?thesis by simp
  next
    assume "\<exists>a b. status_of cid st = [a] \<and> status_of cid ?s' = [b] \<and> rank a \<le> rank b"
    then obtain a b where a: "status_of cid st = [a]" and b: "status_of cid ?s' = [b]"
      and le: "rank a \<le> rank b" by blast
    from a have t: "trace tok (ev # evs) st cid = a # ?t'" by (simp add: ev trace_Cons)
    from b ih have ne: "?t' \<noteq> []" and hd: "hd ?t' = b" by auto
    from ne obtain x xs where xs: "?t' = x # xs" by (cases ?t') auto
    with hd have "x = b" by simp
    with srt xs le have "sorted (map rank (a # ?t'))" by auto
    with a t show ?thesis by simp
  qed
qed

lemma rank_le_transp: "transp (\<lambda>a b. rank a \<le> rank b)"
  by (auto simp: transp_def)

lemma sorted_rank_remdups_adj:
  assumes "sorted (map rank xs)"
  shows "sorted (map rank (remdups_adj xs))"
proof -
  from assms have "sorted_wrt (\<lambda>a b. rank a \<le> rank b) xs" by (simp add: sorted_map)
  then have "successively (\<lambda>a b. rank a \<le> rank b) xs" by (rule successively_if_sorted_wrt)
  then have "successively (\<lambda>a b. rank a \<le> rank b) (remdups_adj xs)"
    by (rule successively_remdups_adjI)
  then have "sorted_wrt (\<lambda>a b. rank a \<le> rank b) (remdups_adj xs)"
    by (simp add: successively_conv_sorted_wrt[OF rank_le_transp])
  then show ?thesis by (simp add: sorted_map)
qed

lemma status_history_trace: "status_history tok evs cid = remdups_adj (trace tok evs init cid)"
  by (simp add: status_history_def trace_def)

lemma init_inv: "distinct (command_ids init) \<and> status_of cid init = []"
  by (simp add: command_ids_def init_def status_of_def)

text \<open>
  C2 as stated fails, because the \<open>UPDATE\<close> that records a result has no condition on
  the status. In the first run a command is enqueued, dispatched, reported done, and
  then reported failed: its statuses are queued, sent, done, failed. In the second run
  the device reports a command that was never dispatched: it goes from queued to done,
  skipping sent.
\<close>

theorem status_history_counterexample:
  "status_history ''tok'' ex_run 7 = [Queued, Sent, Done, Failed]
   \<and> \<not> (prefix (status_history ''tok'' ex_run 7) [Queued, Sent, Done]
          \<or> prefix (status_history ''tok'' ex_run 7) [Queued, Sent, Failed])
   \<and> status_history ''tok'' ex_run_skip 7 = [Queued, Done]
   \<and> \<not> (prefix (status_history ''tok'' ex_run_skip 7) [Queued, Sent, Done]
          \<or> prefix (status_history ''tok'' ex_run_skip 7) [Queued, Sent, Failed])"
proof -
  have r1: "status_history ''tok'' ex_run 7 = [Queued, Sent, Done, Failed]"
    by code_simp
  have r2: "status_history ''tok'' ex_run_skip 7 = [Queued, Done]"
    by code_simp
  from r1 r2 show ?thesis by simp
qed

text \<open>
  C2, amended. For every command, the sequence of status values it takes over any run
  of the system, started from empty tables, begins with queued and never moves backward
  in the order queued, then sent, then done or failed: no operation (enqueue, poll
  dispatch, result recording, register, status update) returns a command to queued or
  takes a finished command back to sent. Result recording is not tied to the sent
  state, so the sequence may skip sent and may switch between done and failed.
\<close>

theorem status_never_moves_backward:
  "(status_history tok evs cid = [] \<or> hd (status_history tok evs cid) = Queued)
   \<and> sorted (map rank (status_history tok evs cid))
   \<and> distinct_adj (status_history tok evs cid)"
proof -
  from init_inv have d: "distinct (command_ids init)" and e: "status_of cid init = []"
    by blast+
  from trace_monotone[OF d, of tok evs cid] e
  have s: "sorted (map rank (trace tok evs init cid))"
    and h: "trace tok evs init cid = [] \<or> hd (trace tok evs init cid) = Queued"
    by blast+
  from s have "sorted (map rank (status_history tok evs cid))"
    unfolding status_history_trace by (rule sorted_rank_remdups_adj)
  moreover from h have "status_history tok evs cid = [] \<or> hd (status_history tok evs cid) = Queued"
    by (simp add: status_history_trace)
  moreover have "distinct_adj (status_history tok evs cid)"
    by (simp add: status_history_trace)
  ultimately show ?thesis by blast
qed

theorem status_never_moves_backward_witness:
  "status_history ''tok'' ex_run 7 = [Queued, Sent, Done, Failed]
   \<and> hd (status_history ''tok'' ex_run 7) = Queued
   \<and> sorted (map rank (status_history ''tok'' ex_run 7))
   \<and> map rank (status_history ''tok'' ex_run 7) = [0, 1, 2, 2]"
proof -
  have r: "status_history ''tok'' ex_run 7 = [Queued, Sent, Done, Failed]"
    by code_simp
  note t = status_never_moves_backward[of "''tok''" ex_run 7]
  from t r have c1: "hd (status_history ''tok'' ex_run 7) = Queued" by simp
  from t have c2: "sorted (map rank (status_history ''tok'' ex_run 7))" by blast
  from r have c3: "map rank (status_history ''tok'' ex_run 7) = [0, 1, 2, 2]" by simp
  from r c1 c2 c3 show ?thesis by (intro conjI)
qed

section \<open>What a poll leaves in the table\<close>

lemma last_report_id: "last_report a rs = Some y \<Longrightarrow> r_id y = Some a"
  by (induction rs) (auto split: option.splits if_splits)

lemma last_report_some:
  "Some e \<in> set rs \<Longrightarrow> r_id e = Some a \<Longrightarrow> last_report a rs \<noteq> None"
proof (induction rs)
  case Nil
  then show ?case by simp
next
  case (Cons r rs)
  show ?case
  proof (cases "last_report a rs")
    case (Some e')
    then show ?thesis by simp
  next
    case None
    with Cons.IH Cons.prems(2) have "Some e \<notin> set rs" by blast
    with Cons.prems(1) have "r = Some e" by simp
    with None Cons.prems(2) show ?thesis by simp
  qed
qed

lemma last_report_exists:
  assumes "Some e \<in> set rs" and "r_id e = Some a"
  shows "\<exists>e'. last_report a rs = Some e' \<and> r_id e' = Some a"
proof -
  from last_report_some[OF assms] obtain e' where "last_report a rs = Some e'" by blast
  with last_report_id[of a rs e'] show ?thesis by blast
qed

lemma recordResult_other_id:
  assumes "i \<noteq> a" and "x \<in> set (recordResult now i d ok err cmds)" and "c_id x = a"
  shows "x \<in> set cmds"
proof -
  from assms(2) obtain c where c: "c \<in> set cmds"
    and x: "x = (if c_id c = i \<and> c_device_id c = d
               then c\<lparr>c_status := (if ok then Done else Failed), c_done_at := Some now,
                      c_error := error_text ok err\<rparr> else c)"
    by (auto simp: recordResult_def)
  from x have "c_id x = c_id c" by (cases "c_id c = i \<and> c_device_id c = d") simp_all
  with assms(1,3) have "c_id c \<noteq> i" by simp
  with x have "x = c" by simp
  with c show ?thesis by simp
qed

lemma recordResults_unreported:
  "last_report a rs = None \<Longrightarrow> x \<in> set (recordResults now d rs cmds) \<Longrightarrow> c_id x = a
   \<Longrightarrow> x \<in> set cmds"
proof (induction rs arbitrary: cmds)
  case Nil
  then show ?case by simp
next
  case (Cons r rs)
  from Cons.prems(1) have tl: "last_report a rs = None"
    by (simp split: option.splits)
  show ?case
  proof (cases r)
    case None
    with Cons.prems(2) have "x \<in> set (recordResults now d rs cmds)" by simp
    from Cons.IH[OF tl this Cons.prems(3)] show ?thesis .
  next
    case (Some e)
    show ?thesis
    proof (cases "r_id e")
      case None
      with Some Cons.prems(2) have "x \<in> set (recordResults now d rs cmds)" by simp
      from Cons.IH[OF tl this Cons.prems(3)] show ?thesis .
    next
      case (Some i)
      with \<open>r = Some e\<close> Cons.prems(1) tl have ne: "i \<noteq> a"
        by (auto split: if_splits)
      from Some \<open>r = Some e\<close> Cons.prems(2)
      have "x \<in> set (recordResults now d rs (recordResult now i d (r_ok e) (r_error e) cmds))"
        by simp
      from Cons.IH[OF tl this Cons.prems(3)]
      have "x \<in> set (recordResult now i d (r_ok e) (r_error e) cmds)" .
      from recordResult_other_id[OF ne this Cons.prems(3)] show ?thesis .
    qed
  qed
qed

lemma recordResults_step:
  "\<exists>cmds'. recordResults now d (r # rs) cmds = recordResults now d rs cmds'"
  by (auto split: option.splits)

lemma recordResults_last_report:
  "last_report a rs = Some e \<Longrightarrow> x \<in> set (recordResults now d rs cmds)
   \<Longrightarrow> c_id x = a \<and> c_device_id x = d \<Longrightarrow> recorded now (r_ok e) (r_error e) x"
proof (induction rs arbitrary: cmds)
  case Nil
  then show ?case by simp
next
  case (Cons r rs)
  show ?case
  proof (cases "last_report a rs")
    case (Some e')
    with Cons.prems(1) have tl: "last_report a rs = Some e" by simp
    from recordResults_step[of now d r rs cmds] obtain cmds' where
      "recordResults now d (r # rs) cmds = recordResults now d rs cmds'" by blast
    with Cons.prems(2) have "x \<in> set (recordResults now d rs cmds')" by simp
    from Cons.IH[OF tl this Cons.prems(3)] show ?thesis .
  next
    case None
    with Cons.prems(1) have r: "r = Some e" and ida: "r_id e = Some a"
      by (auto split: option.splits if_splits)
    with Cons.prems(2)
    have "x \<in> set (recordResults now d rs (recordResult now a d (r_ok e) (r_error e) cmds))"
      by simp
    from recordResults_unreported[OF None this] Cons.prems(3)
    have "x \<in> set (recordResult now a d (r_ok e) (r_error e) cmds)" by blast
    from recordResult_matched[OF this Cons.prems(3)] show ?thesis .
  qed
qed

lemma recordResults_columns:
  "map c_id (recordResults now d rs cmds) = map c_id cmds
   \<and> map c_device_id (recordResults now d rs cmds) = map c_device_id cmds"
proof (induction rs arbitrary: cmds)
  case Nil
  show ?case by simp
next
  case (Cons r rs)
  show ?case
  proof (cases r)
    case None
    with Cons show ?thesis by simp
  next
    case (Some e)
    show ?thesis
    proof (cases "r_id e")
      case None
      with \<open>r = Some e\<close> Cons show ?thesis by simp
    next
      case (Some i)
      with \<open>r = Some e\<close> Cons.IH[of "recordResult now i d (r_ok e) (r_error e) cmds"]
        recordResult_columns[of now i d "r_ok e" "r_error e" cmds]
      show ?thesis by simp
    qed
  qed
qed

lemma takeNextBatch_columns:
  "map c_id (snd (takeNextBatch now d m cmds)) = map c_id cmds
   \<and> map c_device_id (snd (takeNextBatch now d m cmds)) = map c_device_id cmds"
  by (simp add: table_eq mark_sent_def)

lemma takeNextBatch_keeps_unselected:
  assumes "x \<in> set (snd (takeNextBatch now d m cmds))"
    and "c_id x \<notin> set (select_queued d (clamp_max m) cmds)"
  shows "x \<in> set cmds"
proof -
  from assms(1) obtain c where c: "c \<in> set cmds"
    and x: "x = (if c_id c \<in> c_id ` set (batch d (clamp_max m) cmds) then mark_sent now c else c)"
    by (auto simp: table_eq)
  from x have "c_id x = c_id c"
    by (cases "c_id c \<in> c_id ` set (batch d (clamp_max m) cmds)") (simp_all add: mark_sent_def)
  with assms(2) have "c_id c \<notin> c_id ` set (batch d (clamp_max m) cmds)"
    by (simp add: select_queued_batch)
  with x have "x = c" by simp
  with c show ?thesis by simp
qed

lemma poll_table:
  assumes "fst (poll now req st) = Inr rows"
  shows "commands (snd (poll now req st))
           = snd (takeNextBatch now (p_deviceId req)
                  (case p_max req of None \<Rightarrow> 5 | Some m \<Rightarrow> m)
                  (recordResults now (p_deviceId req) (p_results req) (commands st)))"
proof -
  obtain r devs where f: "findDeviceForAuth (p_deviceId req) (p_deviceSecret req) (devices st) = (r, devs)"
    by (cases "findDeviceForAuth (p_deviceId req) (p_deviceSecret req) (devices st)")
  obtain rs cs where t: "takeNextBatch now (p_deviceId req)
                  (case p_max req of None \<Rightarrow> 5 | Some m \<Rightarrow> m)
                  (recordResults now (p_deviceId req) (p_results req) (commands st)) = (rs, cs)"
    by (cases "takeNextBatch now (p_deviceId req)
                  (case p_max req of None \<Rightarrow> 5 | Some m \<Rightarrow> m)
                  (recordResults now (p_deviceId req) (p_results req) (commands st))")
  from assms f t show ?thesis
    by (cases r) (simp_all add: poll_def Let_def split: if_splits)
qed

text \<open>
  C3. Within one poll call the results loop runs before the dispatch statement. The
  table a successful call leaves is the table of the dispatch applied to what the
  results loop left, with the ids and owners of all commands as before; every command
  of the device whose id is reported in the results of the call stands in that table as
  the last entry for its id reports it (done or failed, with \<open>done_at\<close> the time of the
  call and its error text), and it is never among the commands the same call returns.
\<close>

theorem poll_never_redispatches_reported:
  assumes "fst (poll now req st) = Inr rows"
    and "Some e \<in> set (p_results req)" and "r_id e = Some a"
  shows "commands (snd (poll now req st))
           = snd (takeNextBatch now (p_deviceId req)
                  (case p_max req of None \<Rightarrow> 5 | Some m \<Rightarrow> m)
                  (recordResults now (p_deviceId req) (p_results req) (commands st)))
         \<and> rows = fst (takeNextBatch now (p_deviceId req)
                  (case p_max req of None \<Rightarrow> 5 | Some m \<Rightarrow> m)
                  (recordResults now (p_deviceId req) (p_results req) (commands st)))
         \<and> map c_id (commands (snd (poll now req st))) = map c_id (commands st)
         \<and> map c_device_id (commands (snd (poll now req st))) = map c_device_id (commands st)
         \<and> (\<exists>e'. last_report a (p_results req) = Some e' \<and> r_id e' = Some a
                \<and> (\<forall>x\<in>set (commands (snd (poll now req st))).
                      c_id x = a \<and> c_device_id x = p_deviceId req
                      \<longrightarrow> recorded now (r_ok e') (r_error e') x))
         \<and> a \<notin> fst ` set rows"
proof -
  let ?d = "p_deviceId req"
  let ?cmds1 = "recordResults now ?d (p_results req) (commands st)"
  let ?m = "case p_max req of None \<Rightarrow> 5 | Some m \<Rightarrow> m"
  from assms(1) have tab: "commands (snd (poll now req st)) = snd (takeNextBatch now ?d ?m ?cmds1)"
    by (rule poll_table)
  from assms(1) have rows: "rows = fst (takeNextBatch now ?d ?m ?cmds1)"
    by (rule poll_rows)
  have nq: "no_queued a ?d ?cmds1"
    using assms(2,3) by (rule recordResults_finalises)
  have unsel: "a \<notin> set (select_queued ?d (clamp_max ?m) ?cmds1)"
  proof
    assume "a \<in> set (select_queued ?d (clamp_max ?m) ?cmds1)"
    then obtain c where "c \<in> set ?cmds1" "c_id c = a" "c_device_id c = ?d" "c_status c = Queued"
      using select_queued_sound by blast
    with nq show False unfolding no_queued_def by blast
  qed
  have notret: "a \<notin> fst ` set rows"
  proof
    assume "a \<in> fst ` set rows"
    then obtain x where "x \<in> set rows" "fst x = a" by auto
    with rows have "a \<in> set (select_queued ?d (clamp_max ?m) ?cmds1)"
      using takeNextBatch_rows_selected by blast
    with unsel show False by simp
  qed
  have ids: "map c_id (commands (snd (poll now req st))) = map c_id (commands st)"
    using takeNextBatch_columns[of now ?d ?m ?cmds1]
      recordResults_columns[of now ?d "p_results req" "commands st"] tab by simp
  have owners: "map c_device_id (commands (snd (poll now req st))) = map c_device_id (commands st)"
    using takeNextBatch_columns[of now ?d ?m ?cmds1]
      recordResults_columns[of now ?d "p_results req" "commands st"] tab by simp
  from last_report_exists[OF assms(2,3)] obtain e' where
    lr: "last_report a (p_results req) = Some e'" and ide: "r_id e' = Some a" by blast
  have rec: "\<forall>x\<in>set (commands (snd (poll now req st))).
                c_id x = a \<and> c_device_id x = ?d \<longrightarrow> recorded now (r_ok e') (r_error e') x"
  proof (intro ballI impI)
    fix x assume x: "x \<in> set (commands (snd (poll now req st)))"
      and m: "c_id x = a \<and> c_device_id x = ?d"
    from x tab have "x \<in> set (snd (takeNextBatch now ?d ?m ?cmds1))" by simp
    moreover from m unsel have "c_id x \<notin> set (select_queued ?d (clamp_max ?m) ?cmds1)" by simp
    ultimately have "x \<in> set ?cmds1" by (rule takeNextBatch_keeps_unselected)
    from recordResults_last_report[OF lr this m] show "recorded now (r_ok e') (r_error e') x" .
  qed
  from tab rows ids owners lr ide rec notret show ?thesis by blast
qed

theorem poll_never_redispatches_reported_witness:
  "fst (poll 9 (ex_poll ''dev-1'' ''secret-0001'' None [Some (ex_entry 7 True None)]) ex_state_queued)
     = Inr [(8, ''update'', JObj [])]
   \<and> Some (ex_entry 7 True None)
       \<in> set (p_results (ex_poll ''dev-1'' ''secret-0001'' None [Some (ex_entry 7 True None)]))
   \<and> r_id (ex_entry 7 True None) = Some 7
   \<and> map fst (fst (takeNextBatch 9 ''dev-1'' 5 (commands ex_state_queued))) = [7, 8]
   \<and> commands (snd (poll 9 (ex_poll ''dev-1'' ''secret-0001'' None [Some (ex_entry 7 True None)])
                      ex_state_queued))
       = [ex_command 7 ''dev-1'' ''ping'' Queued 2\<lparr>c_status := Done, c_done_at := Some 9\<rparr>,
          ex_command 8 ''dev-1'' ''update'' Queued 3\<lparr>c_status := Sent, c_sent_at := Some 9\<rparr>]
   \<and> recorded 9 True None
        (ex_command 7 ''dev-1'' ''ping'' Queued 2\<lparr>c_status := Done, c_done_at := Some 9\<rparr>)
   \<and> 7 \<notin> fst ` set [(8::nat, ''update'', JObj [])]"
proof -
  let ?req = "ex_poll ''dev-1'' ''secret-0001'' None [Some (ex_entry 7 True None)]"
  have h1: "fst (poll 9 ?req ex_state_queued) = Inr [(8, ''update'', JObj [])]"
    by code_simp
  have h2: "Some (ex_entry 7 True None) \<in> set (p_results ?req)"
    by (simp add: ex_poll_def)
  have h3: "r_id (ex_entry 7 True None) = Some 7"
    by (simp add: ex_entry_def)
  have alone: "map fst (fst (takeNextBatch 9 ''dev-1'' 5 (commands ex_state_queued))) = [7, 8]"
    by code_simp
  have tab: "commands (snd (poll 9 ?req ex_state_queued))
       = [ex_command 7 ''dev-1'' ''ping'' Queued 2\<lparr>c_status := Done, c_done_at := Some 9\<rparr>,
          ex_command 8 ''dev-1'' ''update'' Queued 3\<lparr>c_status := Sent, c_sent_at := Some 9\<rparr>]"
    by code_simp
  have lr: "last_report 7 (p_results ?req) = Some (ex_entry 7 True None)"
    by (simp add: ex_poll_def ex_entry_def)
  have row: "c_id (ex_command 7 ''dev-1'' ''ping'' Queued 2\<lparr>c_status := Done, c_done_at := Some 9\<rparr>) = 7
      \<and> c_device_id (ex_command 7 ''dev-1'' ''ping'' Queued 2\<lparr>c_status := Done, c_done_at := Some 9\<rparr>)
          = p_deviceId ?req"
    by (simp add: ex_command_def ex_poll_def)
  note t = poll_never_redispatches_reported[OF h1 h2 h3]
  from t lr have "\<forall>x\<in>set (commands (snd (poll 9 ?req ex_state_queued))).
                      c_id x = 7 \<and> c_device_id x = p_deviceId ?req
                      \<longrightarrow> recorded 9 (r_ok (ex_entry 7 True None)) (r_error (ex_entry 7 True None)) x"
    by auto
  with tab row have c1: "recorded 9 True None
        (ex_command 7 ''dev-1'' ''ping'' Queued 2\<lparr>c_status := Done, c_done_at := Some 9\<rparr>)"
    by (simp add: ex_entry_def)
  from t have c2: "7 \<notin> fst ` set [(8::nat, ''update'', JObj [])]" by blast
  from h1 h2 h3 alone tab c1 c2 show ?thesis by (intro conjI)
qed

section \<open>Authentication over a run\<close>

lemma auth_success_stored_secret:
  assumes "fst (findDeviceForAuth i s devs) \<noteq> None"
  shows "stored_secret i (snd (findDeviceForAuth i s devs)) = Some s \<and> truthy s"
proof -
  from auth_success_stored[OF assms] obtain d where
    "find (\<lambda>d. d_device_id d = i) (snd (findDeviceForAuth i s devs)) = Some d"
    "d_device_secret d = Some s" "truthy s" by blast
  then show ?thesis by (simp add: stored_secret_def)
qed

lemma auth_fails_stored_differs:
  assumes "stored_secret i devs = Some s" and "truthy s" and "s' \<noteq> s"
  shows "fst (findDeviceForAuth i s' devs) = None"
proof (cases "find (\<lambda>d. d_device_id d = i) devs")
  case None
  then show ?thesis by (simp add: auth_no_row)
next
  case (Some d)
  with assms(1) have st: "d_device_secret d = Some s" by (simp add: stored_secret_def)
  with assms(2) have t: "truthy_opt (d_device_secret d)" by (simp add: truthy_opt_def)
  from st assms(3) have ne: "d_device_secret d \<noteq> Some s'" by simp
  from Some t ne have "findDeviceForAuth i s' devs = (None, devs)"
    by (intro auth_rejected) blast+
  then show ?thesis by simp
qed

lemma stored_secret_upsert_other:
  assumes "g_deviceId req \<noteq> j"
  shows "stored_secret j (upsert_device now req ip devs) = stored_secret j devs"
proof (cases "g_deviceId req \<in> set (map d_device_id devs)")
  case True
  have "stored_secret j (map (\<lambda>d. if d_device_id d = g_deviceId req
                     then d\<lparr>d_info := g_info req,
                            d_device_secret := coalesce (Some (g_deviceSecret req)) (d_device_secret d),
                            d_last_seen_at := Some now, d_ip_last := ip, d_updated_at := Some now\<rparr>
                     else d) ds) = stored_secret j ds" for ds
    using assms by (induction ds) (simp_all add: stored_secret_def)
  with True show ?thesis by (simp add: upsert_device_def)
next
  case False
  with assms show ?thesis
    by (simp add: upsert_device_def stored_secret_def find_snoc split: option.splits)
qed

lemma register_keeps_other:
  "g_deviceId req \<noteq> j
   \<Longrightarrow> stored_secret j (devices (snd (register now req ip st))) = stored_secret j (devices st)"
  by (simp add: register_def stored_secret_upsert_other)

lemma step_keeps_stored_device:
  assumes "\<not> registers_device j e" and "truthy_opt (stored_secret j (devices st))"
  shows "stored_secret j (devices (step tok now e st)) = stored_secret j (devices st)"
proof (cases "is_register e")
  case False
  from step_keeps_stored[OF False assms(2)] show ?thesis .
next
  case True
  then obtain req ip where e: "e = Register req ip"
    by (cases e) (simp_all add: is_register_def)
  with assms(1) have "g_deviceId req \<noteq> j" by (simp add: registers_device_def)
  with e show ?thesis by (simp add: register_keeps_other)
qed

lemma run_keeps_stored_device:
  "list_all (\<lambda>ev. \<not> registers_device j (snd ev)) evs
   \<Longrightarrow> truthy_opt (stored_secret j (devices st))
   \<Longrightarrow> stored_secret j (devices (run tok evs st)) = stored_secret j (devices st)"
proof (induction evs arbitrary: st)
  case Nil
  show ?case by simp
next
  case (Cons ev evs)
  obtain now e where ev: "ev = (now, e)" by (cases ev)
  from Cons.prems(1) ev have ne: "\<not> registers_device j e"
    and rest: "list_all (\<lambda>ev. \<not> registers_device j (snd ev)) evs" by simp_all
  from step_keeps_stored_device[OF ne Cons.prems(2)]
  have k: "stored_secret j (devices (step tok now e st)) = stored_secret j (devices st)" .
  with Cons.prems(2) have "truthy_opt (stored_secret j (devices (step tok now e st)))" by simp
  from Cons.IH[OF rest this] k show ?case by (simp add: ev)
qed

lemma auth_other_secret_fails_later:
  assumes ok: "fst (findDeviceForAuth i s devs) \<noteq> None" and ne: "s' \<noteq> s"
    and evs: "list_all (\<lambda>ev. \<not> registers_device i (snd ev)) evs"
  shows "fst (findDeviceForAuth i s'
           (devices (run tok evs \<lparr>devices = snd (findDeviceForAuth i s devs), commands = cmds\<rparr>)))
         = None"
proof -
  let ?st = "\<lparr>devices = snd (findDeviceForAuth i s devs), commands = cmds\<rparr>"
  from auth_success_stored_secret[OF ok]
  have st: "stored_secret i (devices ?st) = Some s" and t: "truthy s" by simp_all
  then have "truthy_opt (stored_secret i (devices ?st))" by (simp add: truthy_opt_def)
  from run_keeps_stored_device[OF evs this, of tok] st
  have "stored_secret i (devices (run tok evs ?st)) = Some s" by simp
  from auth_fails_stored_differs[OF this t ne] show ?thesis .
qed

text \<open>
  C5, amended. Authentication of a polling device fails (the handler answers
  Unauthorized) unless the device has a row and either (a) that row holds a non-empty
  secret equal to the supplied one, or (b) it holds no secret yet (or an empty one) and
  the supplied secret is longer than 8 characters; in case (b) the supplied secret
  itself, not a hash of it, is written to the row and authentication succeeds. In every
  other case the table is left as it was. After a successful call, a later call
  presenting a different secret for the same device id fails, both at once and after
  any further requests among which there is no \<open>register\<close> for that device id (a
  \<open>register\<close> replaces the secret).
\<close>

theorem findDeviceForAuth_accepts:
  "(fst (findDeviceForAuth i s devs) \<noteq> None \<longleftrightarrow>
     (case find (\<lambda>d. d_device_id d = i) devs of
        None \<Rightarrow> False
      | Some d \<Rightarrow> truthy_opt (d_device_secret d) \<and> d_device_secret d = Some s
                  \<or> \<not> truthy_opt (d_device_secret d) \<and> truthy s \<and> 8 < length s))
   \<and> snd (findDeviceForAuth i s devs) =
     (case find (\<lambda>d. d_device_id d = i) devs of
        None \<Rightarrow> devs
      | Some d \<Rightarrow> if \<not> truthy_opt (d_device_secret d) \<and> truthy s \<and> 8 < length s
                  then set_secret i s devs else devs)
   \<and> find (\<lambda>d. d_device_id d = i) (set_secret i s devs)
       = map_option (\<lambda>d. d\<lparr>d_device_secret := Some s\<rparr>) (find (\<lambda>d. d_device_id d = i) devs)
   \<and> (fst (findDeviceForAuth i s devs) \<noteq> None \<and> s' \<noteq> s
        \<longrightarrow> fst (findDeviceForAuth i s' (snd (findDeviceForAuth i s devs))) = None)
   \<and> (fst (findDeviceForAuth i s devs) \<noteq> None \<and> s' \<noteq> s
        \<and> list_all (\<lambda>ev. \<not> registers_device i (snd ev)) evs
        \<longrightarrow> fst (findDeviceForAuth i s'
                  (devices (run tok evs
                     \<lparr>devices = snd (findDeviceForAuth i s devs), commands = cmds\<rparr>))) = None)
   \<and> (truthy (p_deviceId req) \<and> truthy (p_deviceSecret req)
        \<and> fst (findDeviceForAuth (p_deviceId req) (p_deviceSecret req) (devices st)) = None
        \<longrightarrow> fst (poll now req st) = Inl Unauthorized)"
  using auth_accepts_iff[of i s devs] auth_state[of i s devs] find_set_secret[of i s devs]
    auth_other_secret_fails[of i s devs s'] poll_unauthorized[of req st now]
    auth_other_secret_fails_later[of i s devs s' evs tok cmds]
  by blast

theorem findDeviceForAuth_accepts_witness:
  "fst (findDeviceForAuth ''dev-1'' ''0123456789abcdef'' [ex_device ''dev-1'' None]) \<noteq> None
   \<and> ''another-secret-1'' \<noteq> ''0123456789abcdef''
   \<and> snd (findDeviceForAuth ''dev-1'' ''0123456789abcdef'' [ex_device ''dev-1'' None])
       = [ex_device ''dev-1'' (Some ''0123456789abcdef'')]
   \<and> fst (findDeviceForAuth ''dev-1'' ''another-secret-1''
             (snd (findDeviceForAuth ''dev-1'' ''0123456789abcdef'' [ex_device ''dev-1'' None]))) = None
   \<and> list_all (\<lambda>ev. \<not> registers_device ''dev-1'' (snd ev))
        [(10, Poll (ex_poll ''dev-1'' ''0123456789abcdef'' None [])),
         (11, Register (ex_register ''dev-2'' ''another-secret-1'') None)]
   \<and> fst (findDeviceForAuth ''dev-1'' ''another-secret-1''
        (devices (run ''tok''
           [(10, Poll (ex_poll ''dev-1'' ''0123456789abcdef'' None [])),
            (11, Register (ex_register ''dev-2'' ''another-secret-1'') None)]
           \<lparr>devices = snd (findDeviceForAuth ''dev-1'' ''0123456789abcdef'' [ex_device ''dev-1'' None]),
            commands = []\<rparr>))) = None
   \<and> fst (poll 9 (ex_poll ''dev-1'' ''secret-0002'' None []) ex_state) = Inl Unauthorized"
proof -
  have h1: "fst (findDeviceForAuth ''dev-1'' ''0123456789abcdef'' [ex_device ''dev-1'' None]) \<noteq> None"
    by (simp add: findDeviceForAuth_def ex_device_def truthy_def truthy_opt_def)
  have h2: "''another-secret-1'' \<noteq> ''0123456789abcdef''" by simp
  have h3: "snd (findDeviceForAuth ''dev-1'' ''0123456789abcdef'' [ex_device ''dev-1'' None])
       = [ex_device ''dev-1'' (Some ''0123456789abcdef'')]"
    by (simp add: findDeviceForAuth_def ex_device_def truthy_def truthy_opt_def)
  have h4: "truthy (p_deviceId (ex_poll ''dev-1'' ''secret-0002'' None []))
      \<and> truthy (p_deviceSecret (ex_poll ''dev-1'' ''secret-0002'' None []))
      \<and> fst (findDeviceForAuth (p_deviceId (ex_poll ''dev-1'' ''secret-0002'' None []))
                (p_deviceSecret (ex_poll ''dev-1'' ''secret-0002'' None [])) (devices ex_state)) = None"
    by (simp add: ex_poll_def ex_state_def ex_device_def findDeviceForAuth_def truthy_def
        truthy_opt_def)
  have h5: "list_all (\<lambda>ev. \<not> registers_device ''dev-1'' (snd ev))
        [(10, Poll (ex_poll ''dev-1'' ''0123456789abcdef'' None [])),
         (11, Register (ex_register ''dev-2'' ''another-secret-1'') None)]"
    by (simp add: registers_device_def ex_register_def)
  note t = findDeviceForAuth_accepts[of "''dev-1''" "''0123456789abcdef''"
      "[ex_device ''dev-1'' None]" "''another-secret-1''"
      "[(10, Poll (ex_poll ''dev-1'' ''0123456789abcdef'' None [])),
        (11, Register (ex_register ''dev-2'' ''another-secret-1'') None)]" "''tok''" "[]"
      "ex_poll ''dev-1'' ''secret-0002'' None []" ex_state 9]
  from t h1 h2
  have c: "fst (findDeviceForAuth ''dev-1'' ''another-secret-1''
             (snd (findDeviceForAuth ''dev-1'' ''0123456789abcdef'' [ex_device ''dev-1'' None]))) = None"
    by blast
  from t h1 h2 h5
  have c1: "fst (findDeviceForAuth ''dev-1'' ''another-secret-1''
        (devices (run ''tok''
           [(10, Poll (ex_poll ''dev-1'' ''0123456789abcdef'' None [])),
            (11, Register (ex_register ''dev-2'' ''another-secret-1'') None)]
           \<lparr>devices = snd (findDeviceForAuth ''dev-1'' ''0123456789abcdef'' [ex_device ''dev-1'' None]),
            commands = []\<rparr>))) = None"
    by blast
  from t h4 have c2: "fst (poll 9 (ex_poll ''dev-1'' ''secret-0002'' None []) ex_state) = Inl Unauthorized"
    by blast
  from h1 h2 h3 c h5 c1 c2 show ?thesis by (intro conjI)
qed

end
